theory Spec2Isabelle
  imports Complex_Main
begin

section \<open>Values, errors and loops\<close>

text \<open>
  The adapter computes with C++ \<^verbatim>\<open>double\<close>. A double is modelled as an extended real:
  the two infinities, the finite values (as reals, rounding is not modelled) and NaN,
  with the ordering and the arithmetic of IEEE 754 on these four classes.
\<close>

datatype dbl = NInf | Fin real | PInf | NaN

fun dsub :: "dbl \<Rightarrow> dbl \<Rightarrow> dbl" where
  "dsub NaN _ = NaN"
| "dsub _ NaN = NaN"
| "dsub (Fin a) (Fin b) = Fin (a - b)"
| "dsub (Fin a) PInf = NInf"
| "dsub (Fin a) NInf = PInf"
| "dsub PInf PInf = NaN"
| "dsub PInf _ = PInf"
| "dsub NInf NInf = NaN"
| "dsub NInf _ = NInf"

fun dneg :: "dbl \<Rightarrow> dbl" where
  "dneg NaN = NaN"
| "dneg (Fin a) = Fin (- a)"
| "dneg PInf = NInf"
| "dneg NInf = PInf"

fun dabs :: "dbl \<Rightarrow> dbl" where
  "dabs NaN = NaN"
| "dabs (Fin a) = Fin \<bar>a\<bar>"
| "dabs PInf = PInf"
| "dabs NInf = PInf"

text \<open>Division by the constant \<^verbatim>\<open>2.\<close>\<close>

fun dhalf :: "dbl \<Rightarrow> dbl" where
  "dhalf (Fin a) = Fin (a / 2)"
| "dhalf d = d"

text \<open>\<^verbatim>\<open><\<close> and \<^verbatim>\<open><=\<close> on doubles: every comparison with NaN is false.\<close>

fun dlt :: "dbl \<Rightarrow> dbl \<Rightarrow> bool" where
  "dlt NaN _ = False"
| "dlt _ NaN = False"
| "dlt (Fin a) (Fin b) = (a < b)"
| "dlt NInf NInf = False"
| "dlt NInf _ = True"
| "dlt _ NInf = False"
| "dlt PInf _ = False"
| "dlt (Fin a) PInf = True"

fun dle :: "dbl \<Rightarrow> dbl \<Rightarrow> bool" where
  "dle NaN _ = False"
| "dle _ NaN = False"
| "dle (Fin a) (Fin b) = (a \<le> b)"
| "dle NInf _ = True"
| "dle _ PInf = True"
| "dle PInf _ = False"
| "dle (Fin a) NInf = False"

text \<open>\<^verbatim>\<open>!=\<close> on doubles: NaN differs from everything, itself included.\<close>

fun dne :: "dbl \<Rightarrow> dbl \<Rightarrow> bool" where
  "dne NaN _ = True"
| "dne _ NaN = True"
| "dne a b = (a \<noteq> b)"

text \<open>\<^verbatim>\<open>function_t::infinity ()\<close>\<close>

definition infinity :: dbl where
  "infinity = PInf"

text \<open>
  A failed \<^verbatim>\<open>assert\<close>, \<^verbatim>\<open>ROBOPTIM_ASSERT\<close> or Eigen index or size check aborts the
  program; \<^verbatim>\<open>throw std::runtime_error\<close> raises; an unchecked read or write outside a
  \<^verbatim>\<open>std::vector\<close> or a C array is undefined, and the model stops there with
  \<open>OutOfRange\<close>. All three are values of the model.
\<close>

datatype error = AssertionFailed | RuntimeError string | OutOfRange

definition thenE :: "error + 'a \<Rightarrow> ('a \<Rightarrow> error + 'b) \<Rightarrow> error + 'b" where
  "thenE m k = (case m of Inl e \<Rightarrow> Inl e | Inr v \<Rightarrow> k v)"

definition assertE :: "bool \<Rightarrow> error + unit" where
  "assertE b = (if b then Inr () else Inl AssertionFailed)"

text \<open>A \<^verbatim>\<open>for\<close> loop over the listed indices; it stops at the first failure.\<close>

fun foldE :: "('a \<Rightarrow> 's \<Rightarrow> error + 's) \<Rightarrow> 'a list \<Rightarrow> 's \<Rightarrow> error + 's" where
  "foldE body [] s = Inr s"
| "foldE body (i # is) s =
     (case body i s of Inl e \<Rightarrow> Inl e | Inr s' \<Rightarrow> foldE body is s')"

text \<open>\<^verbatim>\<open>v[i] = d\<close> on an Eigen vector: the index is checked.\<close>

definition store :: "'a list \<Rightarrow> nat \<Rightarrow> 'a \<Rightarrow> error + 'a list" where
  "store v i d = (if i < length v then Inr (v[i := d]) else Inl AssertionFailed)"

text \<open>\<^verbatim>\<open>v[i]\<close> read from an Eigen vector (checked).\<close>

definition fetch :: "'a list \<Rightarrow> nat \<Rightarrow> error + 'a" where
  "fetch v i = (if i < length v then Inr (v ! i) else Inl AssertionFailed)"

text \<open>\<^verbatim>\<open>v[k][i]\<close> read from a \<^verbatim>\<open>std::vector\<close> of \<^verbatim>\<open>std::vector\<close> (unchecked).\<close>

definition fetch2 :: "'a list list \<Rightarrow> nat \<Rightarrow> nat \<Rightarrow> error + 'a" where
  "fetch2 v k i =
     (if k < length v \<and> i < length (v ! k) then Inr (v ! k ! i) else Inl OutOfRange)"

section \<open>The problem\<close>

text \<open>
  A sparse matrix: its dimensions and its stored entries (row, column, value), listed
  in the order in which the two nested loops over \<^verbatim>\<open>outerSize\<close> and
  \<^verbatim>\<open>InnerIterator\<close> visit them.
\<close>

record smatrix =
  rows :: nat
  cols :: nat
  entries :: "(nat \<times> nat \<times> dbl) list"

definition nonZeros :: "smatrix \<Rightarrow> nat" where
  "nonZeros m = length (entries m)"

text \<open>
  A constraint is a linear function \<open>A x + b\<close> (\<^verbatim>\<open>linearFunction_t\<close>, read through
  \<^verbatim>\<open>numericLinearFunction_t\<close>) or another differentiable function
  (\<^verbatim>\<open>nonlinearFunction_t\<close>) with its output size, evaluation and Jacobian.
\<close>

datatype constraint =
    Linear string smatrix "dbl list"
  | Nonlinear string nat "dbl list \<Rightarrow> dbl list" "dbl list \<Rightarrow> smatrix"

fun isLinear :: "constraint \<Rightarrow> bool" where
  "isLinear (Linear _ _ _) = True"
| "isLinear (Nonlinear _ _ _ _) = False"

fun outputSize :: "constraint \<Rightarrow> nat" where
  "outputSize (Linear _ A _) = rows A"
| "outputSize (Nonlinear _ m _ _) = m"

fun getName :: "constraint \<Rightarrow> string" where
  "getName (Linear nm _ _) = nm"
| "getName (Nonlinear nm _ _ _) = nm"

text \<open>A linear function is differentiable: its Jacobian is \<open>A\<close> everywhere.\<close>

fun jacobian :: "constraint \<Rightarrow> dbl list \<Rightarrow> smatrix" where
  "jacobian (Linear _ A _) x = A"
| "jacobian (Nonlinear _ _ _ j) x = j x"

text \<open>\<^verbatim>\<open>g->b ()\<close> and \<^verbatim>\<open>g->A ()\<close> of a linear constraint.\<close>

fun linear_b :: "constraint \<Rightarrow> dbl list" where
  "linear_b (Linear _ _ b) = b"
| "linear_b (Nonlinear _ _ _ _) = []"

fun linear_A :: "constraint \<Rightarrow> smatrix" where
  "linear_A (Linear _ A _) = A"
| "linear_A (Nonlinear _ _ _ _) = \<lparr>rows = 0, cols = 0, entries = []\<rparr>"

text \<open>
  The objective \<^verbatim>\<open>problem ().function ()\<close>: a function that may or may not be
  differentiable (\<^verbatim>\<open>asType<differentiableFunction_t>\<close>).
\<close>

record objective =
  obj_name :: string
  obj_inputSize :: nat
  obj_outputSize :: nat
  obj_eval :: "dbl list \<Rightarrow> dbl list"
  obj_jacobian :: "(dbl list \<Rightarrow> smatrix) option"

record problem =
  pb_function :: objective
  constraints :: "constraint list"
  boundsVector :: "(dbl \<times> dbl) list list"
  argumentBounds :: "(dbl \<times> dbl) list"
  startingPoint :: "dbl list option"

section \<open>Dimensions\<close>

text \<open>\<^verbatim>\<open>NagSolverNlpSparse::compute_nf\<close>\<close>

definition compute_nf :: "problem \<Rightarrow> nat" where
  "compute_nf pb =
     fold (\<lambda>c nf. nf + outputSize c) (constraints pb) (obj_outputSize (pb_function pb))"

section \<open>Sparsity patterns\<close>

text \<open>\<^verbatim>\<open>NagSolverNlpSparse::lookForX ()\<close>: where the objective's Jacobian is evaluated.\<close>

definition lookForX :: "problem \<Rightarrow> nat \<Rightarrow> dbl list" where
  "lookForX pb n =
     (case startingPoint pb of None \<Rightarrow> replicate n (Fin 0) | Some sp \<Rightarrow> sp)"

text \<open>
  \<^verbatim>\<open>NagSolverNlpSparse::lookForX (unsigned constraintId)\<close>: where the Jacobian of a
  nonlinear constraint is evaluated. Every component of the fresh vector is assigned
  before it is read.
\<close>

definition lookForX_value :: "dbl \<times> dbl \<Rightarrow> dbl" where
  "lookForX_value bd =
     (if dne (fst bd) infinity \<and> dne (snd bd) infinity then dhalf (dsub (snd bd) (fst bd))
      else if dne (fst bd) infinity then fst bd
      else snd bd)"

definition lookForX_constraint :: "problem \<Rightarrow> nat \<Rightarrow> nat \<Rightarrow> error + dbl list" where
  "lookForX_constraint pb n constraintId =
     (case startingPoint pb of
        None \<Rightarrow>
          foldE (\<lambda>i x.
                   thenE (fetch2 (boundsVector pb) constraintId i) (\<lambda>bd.
                     store x i (lookForX_value bd)))
                [0..<n] (replicate n (Fin 0))
      | Some sp \<Rightarrow> Inr sp)"

text \<open>
  \<^verbatim>\<open>NagSolverNlpSparse::fill_iafun_javar_lena_nea\<close>: the constant pattern of the linear
  constraints. The state of the second loop is \<^verbatim>\<open>iafun_\<close>, \<^verbatim>\<open>javar_\<close>, \<^verbatim>\<open>a_\<close> and
  \<^verbatim>\<open>offset\<close>; the inner loops push one element per stored entry.
\<close>

definition initial_offset :: "problem \<Rightarrow> nat" where
  "initial_offset pb =
     fold (\<lambda>constraintId offset.
             let cstr = constraints pb ! constraintId in
             if isLinear cstr then offset else offset + outputSize cstr)
          [0..<length (constraints pb)] (obj_outputSize (pb_function pb))"

type_synonym linear_state = "nat list \<times> nat list \<times> dbl list \<times> nat"

definition push_linear :: "problem \<Rightarrow> nat \<Rightarrow> linear_state \<Rightarrow> linear_state" where
  "push_linear pb constraintId s =
     (case s of (iafun, javar, a, offset) \<Rightarrow>
        let cstr = constraints pb ! constraintId in
        if \<not> isLinear cstr then s
        else (iafun @ map (\<lambda>e. offset + fst e + 1) (entries (linear_A cstr)),
              javar @ map (\<lambda>e. fst (snd e) + 1) (entries (linear_A cstr)),
              a @ map (\<lambda>e. snd (snd e)) (entries (linear_A cstr)),
              offset + rows (linear_A cstr)))"

text \<open>The result is \<^verbatim>\<open>iafun_\<close>, \<^verbatim>\<open>javar_\<close>, \<^verbatim>\<open>a_\<close>, \<^verbatim>\<open>lena_\<close> and \<^verbatim>\<open>nea_\<close>.\<close>

definition fill_iafun_javar_lena_nea ::
  "problem \<Rightarrow> nat list \<times> nat list \<times> dbl list \<times> nat \<times> nat" where
  "fill_iafun_javar_lena_nea pb =
     (case fold (push_linear pb) [0..<length (constraints pb)] ([], [], [], initial_offset pb) of
        (iafun, javar, a, offset) \<Rightarrow>
          if length iafun = 0 then ([0], [0], [Fin 0], 1, 0)
          else (iafun, javar, a, length iafun, length iafun))"

text \<open>
  \<^verbatim>\<open>NagSolverNlpSparse::fill_igfun_jgvar_leng_neg\<close>: the pattern of the nonlinear part.
  The state of the loop is \<^verbatim>\<open>igfun_\<close>, \<^verbatim>\<open>jgvar_\<close>, \<^verbatim>\<open>offset\<close> and \<^verbatim>\<open>neg_\<close>.
\<close>

type_synonym nonlinear_state = "nat list \<times> nat list \<times> nat \<times> nat"

definition push_nonlinear ::
  "problem \<Rightarrow> nat \<Rightarrow> nat \<Rightarrow> nonlinear_state \<Rightarrow> error + nonlinear_state" where
  "push_nonlinear pb n constraintId s =
     (case s of (igfun, jgvar, offset, neg) \<Rightarrow>
        let cstr = constraints pb ! constraintId in
        if isLinear cstr then Inr s
        else thenE (lookForX_constraint pb n constraintId) (\<lambda>x.
               let jac = jacobian cstr x in
               Inr (igfun @ map (\<lambda>e. offset + fst e + 1) (entries jac),
                    jgvar @ map (\<lambda>e. fst (snd e) + 1) (entries jac),
                    offset + rows jac,
                    neg + nonZeros jac)))"

text \<open>The result is \<^verbatim>\<open>igfun_\<close>, \<^verbatim>\<open>jgvar_\<close>, \<^verbatim>\<open>leng_\<close> and \<^verbatim>\<open>neg_\<close>.\<close>

definition fill_igfun_jgvar_leng_neg ::
  "problem \<Rightarrow> nat \<Rightarrow> error + nat list \<times> nat list \<times> nat \<times> nat" where
  "fill_igfun_jgvar_leng_neg pb n =
     (case obj_jacobian (pb_function pb) of
        None \<Rightarrow> Inl (RuntimeError ''objective function should be differentiable'')
      | Some j \<Rightarrow>
          let jac = j (lookForX pb n) in
          thenE (foldE (push_nonlinear pb n) [0..<length (constraints pb)]
                   (map (\<lambda>e. fst e + 1) (entries jac),
                    map (\<lambda>e. fst (snd e) + 1) (entries jac),
                    rows jac,
                    nonZeros jac)) (\<lambda>s.
            case s of (igfun, jgvar, offset, neg) \<Rightarrow>
              if length igfun = 0 then Inr ([0], [0], 1, 0)
              else Inr (igfun, jgvar, length igfun, neg)))"

section \<open>Bounds\<close>

text \<open>
  \<^verbatim>\<open>NagSolverNlpSparse::fill_xlow_xupp\<close>: the variable bounds, copied one to one.
\<close>

definition fill_xlow_xupp :: "problem \<Rightarrow> nat \<Rightarrow> error + dbl list \<times> dbl list" where
  "fill_xlow_xupp pb n =
     thenE (assertE (length (argumentBounds pb) = n)) (\<lambda>_.
       Inr (map fst (argumentBounds pb), map snd (argumentBounds pb)))"

text \<open>
  \<^verbatim>\<open>NagSolverNlpSparse::fill_flow_fupp\<close>. The state of its loops is the pair of arrays
  \<^verbatim>\<open>flow_\<close>, \<^verbatim>\<open>fupp_\<close> and the running \<^verbatim>\<open>offset\<close>.
\<close>

type_synonym bounds_state = "dbl list \<times> dbl list \<times> nat"

definition put_bounds :: "dbl \<Rightarrow> dbl \<Rightarrow> bounds_state \<Rightarrow> error + bounds_state" where
  "put_bounds lo hi s =
     (case s of (flow, fupp, offset) \<Rightarrow>
        thenE (store flow offset lo) (\<lambda>flow'.
        thenE (store fupp offset hi) (\<lambda>fupp'.
          Inr (flow', fupp', offset + 1))))"

text \<open>Body of the first loop: bounds for nonlinear constraints.\<close>

definition nonlinear_bounds :: "problem \<Rightarrow> nat \<Rightarrow> bounds_state \<Rightarrow> error + bounds_state" where
  "nonlinear_bounds pb constraintId s =
     (let cstr = constraints pb ! constraintId in
      if isLinear cstr then Inr s
      else foldE (\<lambda>i s.
             thenE (fetch2 (boundsVector pb) constraintId i) (\<lambda>bd.
               put_bounds (fst bd) (snd bd) s))
           [0..<outputSize cstr] s)"

text \<open>Body of the second loop: bounds for linear constraints, shifted by \<open>b\<close>.\<close>

definition linear_bounds :: "problem \<Rightarrow> nat \<Rightarrow> bounds_state \<Rightarrow> error + bounds_state" where
  "linear_bounds pb constraintId s =
     (let cstr = constraints pb ! constraintId in
      if \<not> isLinear cstr then Inr s
      else foldE (\<lambda>i s.
             thenE (fetch2 (boundsVector pb) constraintId i) (\<lambda>bd.
             thenE (fetch (linear_b cstr) i) (\<lambda>bi.
               put_bounds (dsub (fst bd) bi) (dsub (snd bd) bi) s)))
           [0..<outputSize cstr] s)"

text \<open>The function up to and including \<^verbatim>\<open>assert (offset == nf_)\<close>.\<close>

definition assemble_flow_fupp :: "problem \<Rightarrow> nat \<Rightarrow> error + dbl list \<times> dbl list" where
  "assemble_flow_fupp pb nf =
     thenE (store (replicate nf (Fin 0)) 0 (dneg infinity)) (\<lambda>flow.
     thenE (store (replicate nf (Fin 0)) 0 infinity) (\<lambda>fupp.
     thenE (foldE (nonlinear_bounds pb) [0..<length (constraints pb)] (flow, fupp, 1)) (\<lambda>s.
     thenE (foldE (linear_bounds pb) [0..<length (constraints pb)] s) (\<lambda>s'.
       case s' of (flow', fupp', offset) \<Rightarrow>
         thenE (assertE (offset = nf)) (\<lambda>_. Inr (flow', fupp'))))))"

text \<open>The tolerance \<^verbatim>\<open>1e-6\<close>.\<close>

definition tol :: dbl where
  "tol = Fin (1 / 1000000)"

text \<open>Body of the last loop: make sure the bounds are consistent.\<close>

definition snap_row :: "nat \<Rightarrow> dbl list \<times> dbl list \<Rightarrow> error + dbl list \<times> dbl list" where
  "snap_row row s =
     (case s of (flow, fupp) \<Rightarrow>
        let flow1 = (if dlt (dabs (flow ! row)) tol then flow[row := Fin 0] else flow);
            fupp1 = (if dlt (dabs (fupp ! row)) tol then fupp[row := Fin 0] else fupp);
            flow2 = (if dlt (dabs (dsub (flow1 ! row) (fupp1 ! row))) tol
                     then flow1[row := fupp1 ! row] else flow1)
        in thenE (assertE (dle (flow2 ! row) (fupp1 ! row))) (\<lambda>_. Inr (flow2, fupp1)))"

definition fill_flow_fupp :: "problem \<Rightarrow> nat \<Rightarrow> error + dbl list \<times> dbl list" where
  "fill_flow_fupp pb nf =
     thenE (assemble_flow_fupp pb nf) (foldE snap_row [0..<nf])"

section \<open>The evaluation callback\<close>

text \<open>
  What the callback does beyond writing its arrays is recorded as a list of events: each
  evaluation of a function or of a Jacobian, and each call of the monitor.
\<close>

datatype event =
    EvalObjective "dbl list"
  | EvalConstraint nat "dbl list"
  | JacObjective "dbl list"
  | JacConstraint nat "dbl list"
  | MonitorCall "dbl list"

record solverState =
  state_x :: "dbl list"

type_synonym callback_t = "problem \<Rightarrow> solverState \<Rightarrow> solverState"

text \<open>
  The state the callback works on: the arrays \<^verbatim>\<open>f\<close> and \<^verbatim>\<open>g\<close> of the external solver,
  the solver state of the adapter, and the events so far.
\<close>

record cb_state =
  cb_f :: "dbl list"
  cb_g :: "dbl list"
  cb_solverState :: solverState
  cb_events :: "event list"

text \<open>
  A write through \<^verbatim>\<open>Eigen::Map\<close> of the given size over a C array: the index is checked
  against the size of the map, not against the array behind it.
\<close>

definition mstore :: "dbl list \<Rightarrow> nat \<Rightarrow> nat \<Rightarrow> dbl \<Rightarrow> error + dbl list" where
  "mstore v sz i d =
     (if \<not> i < sz then Inl AssertionFailed
      else if \<not> i < length v then Inl OutOfRange
      else Inr (v[i := d]))"

text \<open>\<^verbatim>\<open>f_.segment (offset, m) = vals\<close>\<close>

definition msegment :: "dbl list \<Rightarrow> nat \<Rightarrow> nat \<Rightarrow> nat \<Rightarrow> dbl list \<Rightarrow> error + dbl list" where
  "msegment v sz offset m vals =
     (if \<not> (offset + m \<le> sz \<and> length vals = m) then Inl AssertionFailed
      else if \<not> offset + m \<le> length v then Inl OutOfRange
      else Inr (take offset v @ vals @ drop (offset + m) v))"

text \<open>The three loops of \<^verbatim>\<open>if (needf > 0)\<close>; their state is the callback state and \<^verbatim>\<open>offset\<close>.\<close>

fun eval_of :: "constraint \<Rightarrow> dbl list \<Rightarrow> dbl list" where
  "eval_of (Nonlinear _ _ g _) x = g x"
| "eval_of (Linear _ _ _) x = []"

definition needf_nonlinear ::
  "problem \<Rightarrow> dbl list \<Rightarrow> nat \<Rightarrow> nat \<Rightarrow> cb_state \<times> nat \<Rightarrow> error + cb_state \<times> nat" where
  "needf_nonlinear pb x nf constraintId s =
     (case s of (st, offset) \<Rightarrow>
        let cstr = constraints pb ! constraintId in
        if isLinear cstr then Inr s
        else thenE (msegment (cb_f st) nf offset (outputSize cstr) (eval_of cstr x)) (\<lambda>f'.
               Inr (st\<lparr>cb_f := f',
                       cb_events := cb_events st @ [EvalConstraint constraintId x]\<rparr>,
                    offset + outputSize cstr)))"

definition needf_linear ::
  "problem \<Rightarrow> nat \<Rightarrow> cb_state \<times> nat \<Rightarrow> error + cb_state \<times> nat" where
  "needf_linear pb constraintId s =
     (case s of (st, offset) \<Rightarrow>
        let cstr = constraints pb ! constraintId in
        if \<not> isLinear cstr then Inr s
        else Inr (st, offset + outputSize cstr))"

definition usrfun_needf :: "problem \<Rightarrow> dbl list \<Rightarrow> nat \<Rightarrow> cb_state \<Rightarrow> error + cb_state" where
  "usrfun_needf pb x nf st =
     thenE (case obj_eval (pb_function pb) x of
              [v] \<Rightarrow> mstore (cb_f st) nf 0 v
            | _ \<Rightarrow> Inl AssertionFailed) (\<lambda>f'.
     thenE (foldE (needf_nonlinear pb x nf) [0..<length (constraints pb)]
              (st\<lparr>cb_f := f', cb_events := cb_events st @ [EvalObjective x]\<rparr>, 1)) (\<lambda>s.
     thenE (foldE (needf_linear pb) [0..<length (constraints pb)] s) (\<lambda>s'.
       case s' of (st', offset) \<Rightarrow>
         thenE (assertE (offset = nf)) (\<lambda>_. Inr st'))))"

text \<open>
  The loops of \<^verbatim>\<open>if (needg > 0)\<close>. Writing the stored values of a Jacobian:
  \<^verbatim>\<open>g_[offset++] = it.value ()\<close> for each entry.
\<close>

definition write_values ::
  "nat \<Rightarrow> smatrix \<Rightarrow> cb_state \<times> nat \<Rightarrow> error + cb_state \<times> nat" where
  "write_values leng j s =
     foldE (\<lambda>e s. case s of (st, offset) \<Rightarrow>
              thenE (mstore (cb_g st) leng offset (snd (snd e))) (\<lambda>g'.
                Inr (st\<lparr>cb_g := g'\<rparr>, offset + 1)))
           (entries j) s"

definition needg_constraint ::
  "problem \<Rightarrow> dbl list \<Rightarrow> nat \<Rightarrow> nat \<Rightarrow> cb_state \<times> nat \<Rightarrow> error + cb_state \<times> nat" where
  "needg_constraint pb x leng constraintId s =
     (case s of (st, offset) \<Rightarrow>
        let cstr = constraints pb ! constraintId in
        if \<not> isLinear cstr then Inr s
        else write_values leng (jacobian cstr x)
               (st\<lparr>cb_events := cb_events st @ [JacConstraint constraintId x]\<rparr>, offset))"

definition usrfun_needg :: "problem \<Rightarrow> dbl list \<Rightarrow> nat \<Rightarrow> cb_state \<Rightarrow> error + cb_state" where
  "usrfun_needg pb x leng st =
     (case obj_jacobian (pb_function pb) of
        None \<Rightarrow> Inl (RuntimeError ''objective function should be differentiable'')
      | Some jac \<Rightarrow>
          thenE (write_values leng (jac x)
                   (st\<lparr>cb_events := cb_events st @ [JacObjective x]\<rparr>, 0)) (\<lambda>s.
          thenE (foldE (needg_constraint pb x leng) [0..<length (constraints pb)] s) (\<lambda>s'.
            case s' of (st', offset) \<Rightarrow>
              thenE (assertE (offset = leng)) (\<lambda>_. Inr st'))))"

text \<open>The end of the callback: the monitor, if one is registered.\<close>

definition usrfun_monitor ::
  "problem \<Rightarrow> callback_t option \<Rightarrow> dbl list \<Rightarrow> cb_state \<Rightarrow> cb_state" where
  "usrfun_monitor pb callback x st =
     (case callback of
        None \<Rightarrow> st
      | Some cb \<Rightarrow>
          st\<lparr>cb_solverState := cb pb ((cb_solverState st)\<lparr>state_x := x\<rparr>),
             cb_events := cb_events st @ [MonitorCall x]\<rparr>)"

text \<open>
  \<^verbatim>\<open>detail::usrfun\<close>. The adapter reached through \<^verbatim>\<open>comm->p\<close> gives the problem and
  the registered monitor; \<^verbatim>\<open>x_\<close> maps the first \<open>n\<close> values of \<^verbatim>\<open>x\<close>.
\<close>

definition usrfun ::
  "problem \<Rightarrow> callback_t option \<Rightarrow> int \<Rightarrow> nat \<Rightarrow> dbl list \<Rightarrow> int \<Rightarrow> nat \<Rightarrow> int \<Rightarrow> nat \<Rightarrow>
   cb_state \<Rightarrow> error + cb_state" where
  "usrfun pb callback status n x needf nf needg leng st =
     (if status \<ge> 2 then Inr st
      else
        thenE (if needf > 0 then usrfun_needf pb (take n x) nf st else Inr st) (\<lambda>st1.
        thenE (if needg > 0 then usrfun_needg pb (take n x) leng st1 else Inr st1) (\<lambda>st2.
          Inr (usrfun_monitor pb callback (take n x) st2))))"

section \<open>The adapter and \<^verbatim>\<open>solve\<close>\<close>

text \<open>Names: \<^verbatim>\<open>boost::format\<close> with a decimal index.\<close>

definition digit_char :: "nat \<Rightarrow> char" where
  "digit_char n = ''0123456789'' ! n"

fun string_of_nat :: "nat \<Rightarrow> string" where
  "string_of_nat n =
     (if n < 10 then [digit_char n] else string_of_nat (n div 10) @ [digit_char (n mod 10)])"

definition fname :: "string \<Rightarrow> string \<Rightarrow> nat \<Rightarrow> string" where
  "fname kind nm i = kind @ '', '' @ nm @ '', Ouput variable '' @ string_of_nat i"

definition xname :: "nat \<Rightarrow> string" where
  "xname i = ''RobOptim variable '' @ string_of_nat i"

text \<open>
  \<^verbatim>\<open>NagSolverNlpSparse::fill_fnames\<close>: it pushes onto \<^verbatim>\<open>fnames_\<close> as it finds it.
\<close>

definition fill_fnames :: "problem \<Rightarrow> nat \<Rightarrow> string list \<Rightarrow> error + string list" where
  "fill_fnames pb nf fnames =
     (let fnames1 = fnames @ [fname ''cost'' (obj_name (pb_function pb)) 0];
          fnames2 = fold (\<lambda>constraintId fn.
                       let cstr = constraints pb ! constraintId in
                       if isLinear cstr then fn
                       else fn @ map (fname ''nonlinear'' (getName cstr)) [0..<outputSize cstr])
                     [0..<length (constraints pb)] fnames1;
          fnames3 = fold (\<lambda>constraintId fn.
                       let cstr = constraints pb ! constraintId in
                       if \<not> isLinear cstr then fn
                       else fn @ map (fname ''linear'' (getName cstr)) [0..<outputSize cstr])
                     [0..<length (constraints pb)] fnames2
      in thenE (assertE (nf = length fnames3)) (\<lambda>_. Inr fnames3))"

text \<open>\<^verbatim>\<open>Result\<close>, and the variant \<^verbatim>\<open>result_\<close> of the solver.\<close>

record result_rec =
  result_inputSize :: nat
  result_outputSize :: nat
  result_x :: "dbl list"
  result_value :: "dbl list"
  result_constraints :: "dbl list"
  result_lambda :: "dbl list"

datatype result_t = NoSolution | Result result_rec | SolverError string "result_rec option"

text \<open>
  The members of \<^verbatim>\<open>NagSolverNlpSparse\<close> (the trailing underscore of the source is
  written \<open>_m\<close>).
\<close>

record adapter =
  problem_m :: problem
  nf_m :: nat
  n_m :: nat
  nxname_m :: nat
  nfname_m :: nat
  objadd_m :: dbl
  objrow_m :: nat
  iafun_m :: "nat list"
  javar_m :: "nat list"
  a_m :: "dbl list"
  lena_m :: nat
  nea_m :: nat
  igfun_m :: "nat list"
  jgvar_m :: "nat list"
  leng_m :: nat
  neg_m :: nat
  xlow_m :: "dbl list"
  xupp_m :: "dbl list"
  xnames_m :: "string list"
  flow_m :: "dbl list"
  fupp_m :: "dbl list"
  fnames_m :: "string list"
  x_m :: "dbl list"
  xstate_m :: "int list"
  xmul_m :: "dbl list"
  f_m :: "dbl list"
  fstate_m :: "int list"
  fmul_m :: "dbl list"
  ns_m :: int
  ninf_m :: int
  sinf_m :: dbl
  callback_m :: "callback_t option"
  solverState_m :: solverState
  result_m :: result_t

text \<open>
  The constructor. Eigen vectors built with a size are not initialised; the model fills
  them with zeros.
\<close>

definition NagSolverNlpSparse :: "problem \<Rightarrow> adapter" where
  "NagSolverNlpSparse pb =
     \<lparr>problem_m = pb, nf_m = 0, n_m = obj_inputSize (pb_function pb),
      nxname_m = 0, nfname_m = 0, objadd_m = Fin 0, objrow_m = 1,
      iafun_m = [], javar_m = [], a_m = [], lena_m = 0, nea_m = 0,
      igfun_m = [], jgvar_m = [], leng_m = 0, neg_m = 0,
      xlow_m = [], xupp_m = [], xnames_m = [],
      flow_m = [], fupp_m = [], fnames_m = [],
      x_m = replicate (obj_inputSize (pb_function pb)) (Fin 0),
      xstate_m = [],
      xmul_m = replicate (obj_inputSize (pb_function pb)) (Fin 0),
      f_m = [], fstate_m = [],
      fmul_m = replicate (obj_inputSize (pb_function pb)) (Fin 0),
      ns_m = 0, ninf_m = 0, sinf_m = Fin 0,
      callback_m = None, solverState_m = \<lparr>state_x = []\<rparr>, result_m = NoSolution\<rparr>"

definition setIterationCallback :: "callback_t \<Rightarrow> adapter \<Rightarrow> adapter" where
  "setIterationCallback callback a = a\<lparr>callback_m := Some callback\<rparr>"

text \<open>
  \<^verbatim>\<open>resize\<close> of an Eigen vector keeps the values when the size is the same and gives
  a fresh vector otherwise; \<^verbatim>\<open>resize\<close> of a \<^verbatim>\<open>std::vector\<close> keeps a prefix and pads
  with zeros.
\<close>

definition resize_eigen :: "dbl list \<Rightarrow> nat \<Rightarrow> dbl list" where
  "resize_eigen v n = (if length v = n then v else replicate n (Fin 0))"

definition resize_std :: "int list \<Rightarrow> nat \<Rightarrow> int list" where
  "resize_std v n = take n v @ replicate (n - length v) 0"

text \<open>
  What \<^verbatim>\<open>nag_opt_sparse_nlp_solve\<close> leaves in the arrays it was given and in
  \<^verbatim>\<open>fail\<close>. The external solver itself is a parameter: a function of the adapter whose
  members it is handed.
\<close>

record nag_output =
  out_x :: "dbl list"
  out_xstate :: "int list"
  out_xmul :: "dbl list"
  out_f :: "dbl list"
  out_fstate :: "int list"
  out_fmul :: "dbl list"
  out_ns :: int
  out_ninf :: int
  out_sinf :: dbl
  fail_code :: int
  fail_message :: string

type_synonym nag_solver = "adapter \<Rightarrow> nag_output"

definition NE_NOERROR :: int where
  "NE_NOERROR = 0"

text \<open>\<^verbatim>\<open>v.segment (start, len)\<close> read from an Eigen vector (checked).\<close>

definition segment :: "'a list \<Rightarrow> nat \<Rightarrow> nat \<Rightarrow> error + 'a list" where
  "segment v start len =
     (if start + len \<le> length v then Inr (take len (drop start v)) else Inl AssertionFailed)"

text \<open>\<^verbatim>\<open>NagSolverNlpSparse::solve\<close>, up to the call of the external solver.\<close>

definition solve_prepare :: "adapter \<Rightarrow> error + adapter" where
  "solve_prepare a =
     (let pb = problem_m a;
          n = n_m a;
          nf = compute_nf pb;
          nfname = (if nf = 1 \<or> n = 1 then 1 else nf);
          nxname = (if nf = 1 \<or> n = 1 then 1 else n)
      in
      case fill_iafun_javar_lena_nea pb of (iafun, javar, av, lena, nea) \<Rightarrow>
      thenE (fill_igfun_jgvar_leng_neg pb n) (\<lambda>(igfun, jgvar, leng, neg).
      thenE (fill_xlow_xupp pb n) (\<lambda>(xlow, xupp).
      thenE (fill_flow_fupp pb nf) (\<lambda>(flow, fupp).
      thenE (fill_fnames pb nf (fnames_m a)) (\<lambda>fnames.
        let x = (case startingPoint pb of Some sp \<Rightarrow> sp | None \<Rightarrow> replicate n (Fin 0));
            xstate = resize_std (xstate_m a) n;
            xmul = resize_eigen (xmul_m a) n;
            f = resize_eigen (f_m a) nf;
            fstate = resize_std (fstate_m a) nf;
            fmul = resize_eigen (fmul_m a) nf;
            xnames = xnames_m a @ map xname [0..<obj_inputSize (pb_function pb)]
        in
        thenE (assertE
                 (nf > 0 \<and> n > 0 \<and> (nxname = 1 \<or> nxname = n) \<and> (nfname = 1 \<or> nfname = nf)
                  \<and> objadd_m a = Fin 0 \<and> 1 \<le> objrow_m a \<and> objrow_m a \<le> nf
                  \<and> length iafun = lena \<and> length javar = lena \<and> length av = lena \<and> lena \<ge> 1
                  \<and> length igfun \<ge> leng \<and> length jgvar \<ge> leng \<and> leng \<ge> 1 \<and> neg \<le> leng
                  \<and> length xlow = n \<and> length xupp = n
                  \<and> length flow = nf \<and> length fupp = nf
                  \<and> length x = n \<and> length xstate = n \<and> length xmul = n
                  \<and> length f = nf \<and> length fstate = nf \<and> length fmul = nf)) (\<lambda>_.
          Inr (a\<lparr>nf_m := nf, nfname_m := nfname, nxname_m := nxname,
                 iafun_m := iafun, javar_m := javar, a_m := av, lena_m := lena, nea_m := nea,
                 igfun_m := igfun, jgvar_m := jgvar, leng_m := leng, neg_m := neg,
                 xlow_m := xlow, xupp_m := xupp, flow_m := flow, fupp_m := fupp,
                 fnames_m := fnames, x_m := x, xstate_m := xstate, xmul_m := xmul,
                 f_m := f, fstate_m := fstate, fmul_m := fmul, xnames_m := xnames\<rparr>)))))))"

text \<open>The end of \<^verbatim>\<open>solve\<close>: the arrays as the external solver left them, and the result.\<close>

definition solve_finish :: "adapter \<Rightarrow> nag_output \<Rightarrow> error + adapter" where
  "solve_finish a out =
     (let pb = problem_m a;
          a1 = a\<lparr>x_m := out_x out, xstate_m := out_xstate out, xmul_m := out_xmul out,
                 f_m := out_f out, fstate_m := out_fstate out, fmul_m := out_fmul out,
                 ns_m := out_ns out, ninf_m := out_ninf out, sinf_m := out_sinf out\<rparr>
      in
      thenE (fetch (f_m a1) 0) (\<lambda>f0.
      thenE (store (replicate (obj_outputSize (pb_function pb)) (Fin 0)) 0 f0) (\<lambda>val.
      thenE (segment (f_m a1) 1 (nf_m a1 - 1)) (\<lambda>cs.
      thenE (segment (fmul_m a1) 1 (nf_m a1 - 1)) (\<lambda>lam.
        let res = \<lparr>result_inputSize = obj_inputSize (pb_function pb),
                   result_outputSize = obj_outputSize (pb_function pb),
                   result_x = x_m a1, result_value = val,
                   result_constraints = cs, result_lambda = lam\<rparr>
        in
        if fail_code out = NE_NOERROR then Inr (a1\<lparr>result_m := Result res\<rparr>)
        else Inr (a1\<lparr>result_m := SolverError (fail_message out) (Some res)\<rparr>))))))"

definition solve :: "nag_solver \<Rightarrow> adapter \<Rightarrow> error + adapter" where
  "solve nag a = thenE (solve_prepare a) (\<lambda>a1. solve_finish a1 (nag a1))"

text \<open>
  Observations on the events: a step is quiet when it leaves the solver state alone and
  adds no call of the monitor.
\<close>

fun isMonitorCall :: "event \<Rightarrow> bool" where
  "isMonitorCall (MonitorCall _) = True"
| "isMonitorCall _ = False"

definition quiet :: "cb_state \<Rightarrow> cb_state \<Rightarrow> bool" where
  "quiet st st' \<longleftrightarrow>
     cb_solverState st' = cb_solverState st \<and>
     (\<exists>evs. cb_events st' = cb_events st @ evs \<and> (\<forall>e\<in>set evs. \<not> isMonitorCall e))"

definition monitorCalls :: "cb_state \<Rightarrow> nat" where
  "monitorCalls st = length (filter isMonitorCall (cb_events st))"

section \<open>Example problems\<close>

text \<open>Scenario A: the objective \<open>(x - 3)\<^sup>2\<close> of one variable, no constraint.\<close>

definition square_eval :: "dbl list \<Rightarrow> dbl list" where
  "square_eval x = (case x of [Fin v] \<Rightarrow> [Fin ((v - 3) * (v - 3))] | _ \<Rightarrow> [NaN])"

definition square_jac :: "dbl list \<Rightarrow> smatrix" where
  "square_jac x =
     (case x of [Fin v] \<Rightarrow> \<lparr>rows = 1, cols = 1, entries = [(0, 0, Fin (2 * (v - 3)))]\<rparr>
      | _ \<Rightarrow> \<lparr>rows = 1, cols = 1, entries = [(0, 0, NaN)]\<rparr>)"

definition scenarioA :: problem where
  "scenarioA =
     \<lparr>pb_function = \<lparr>obj_name = ''square'', obj_inputSize = 1, obj_outputSize = 1,
                      obj_eval = square_eval, obj_jacobian = Some square_jac\<rparr>,
      constraints = [], boundsVector = [],
      argumentBounds = [(Fin (- 10), Fin 10)],
      startingPoint = Some [Fin 0]\<rparr>"

definition cb_init :: cb_state where
  "cb_init = \<lparr>cb_f = [Fin 0], cb_g = [Fin 0], cb_solverState = \<lparr>state_x = []\<rparr>, cb_events = []\<rparr>"

definition monitor_id :: callback_t where
  "monitor_id pb s = s"

text \<open>
  A mixed problem of one variable: the same objective, the nonlinear constraint
  \<open>2 \<le> x\<^sup>2 \<le> 4\<close> and the linear constraint \<open>0 \<le> 7 x + 1 \<le> 10\<close>, no starting point.
\<close>

definition sq_eval :: "dbl list \<Rightarrow> dbl list" where
  "sq_eval x = (case x of [Fin v] \<Rightarrow> [Fin (v * v)] | _ \<Rightarrow> [NaN])"

definition sq_jac :: "dbl list \<Rightarrow> smatrix" where
  "sq_jac x =
     (case x of [Fin v] \<Rightarrow> \<lparr>rows = 1, cols = 1, entries = [(0, 0, Fin (2 * v))]\<rparr>
      | _ \<Rightarrow> \<lparr>rows = 1, cols = 1, entries = [(0, 0, NaN)]\<rparr>)"

definition problemM :: problem where
  "problemM =
     \<lparr>pb_function = \<lparr>obj_name = ''square'', obj_inputSize = 1, obj_outputSize = 1,
                      obj_eval = square_eval, obj_jacobian = Some square_jac\<rparr>,
      constraints =
        [Nonlinear ''g'' 1 sq_eval sq_jac,
         Linear ''l'' \<lparr>rows = 1, cols = 1, entries = [(0, 0, Fin 7)]\<rparr> [Fin 1]],
      boundsVector = [[(Fin 2, Fin 4)], [(Fin 0, Fin 10)]],
      argumentBounds = [(Fin (- 10), Fin 10)],
      startingPoint = None\<rparr>"

text \<open>An external solver that reports success at \<open>x = 3\<close> on Scenario A.\<close>

definition nag_found :: nag_solver where
  "nag_found a =
     \<lparr>out_x = [Fin 3], out_xstate = [0], out_xmul = [Fin 0],
      out_f = [Fin 0], out_fstate = [0], out_fmul = [Fin 0],
      out_ns = 0, out_ninf = 0, out_sinf = Fin 0,
      fail_code = NE_NOERROR, fail_message = []\<rparr>"

fun writes :: "'a list \<Rightarrow> nat \<Rightarrow> 'a list \<Rightarrow> 'a list" where
  "writes v off [] = v"
| "writes v off (d # ds) = writes (v[off := d]) (Suc off) ds"

definition nonlinear_rows :: "problem \<Rightarrow> nat \<Rightarrow> (dbl \<times> dbl) list" where
  "nonlinear_rows pb k =
     (if isLinear (constraints pb ! k) then []
      else map (\<lambda>i. boundsVector pb ! k ! i) [0..<outputSize (constraints pb ! k)])"

definition linear_rows :: "problem \<Rightarrow> nat \<Rightarrow> (dbl \<times> dbl) list" where
  "linear_rows pb k =
     (if isLinear (constraints pb ! k)
      then map (\<lambda>i. (dsub (fst (boundsVector pb ! k ! i)) (linear_b (constraints pb ! k) ! i),
                      dsub (snd (boundsVector pb ! k ! i)) (linear_b (constraints pb ! k) ! i)))
             [0..<outputSize (constraints pb ! k)]
      else [])"

definition nonlinear_ok :: "problem \<Rightarrow> nat \<Rightarrow> bool" where
  "nonlinear_ok pb k \<longleftrightarrow>
     isLinear (constraints pb ! k) \<or>
     (\<forall>i < outputSize (constraints pb ! k).
        k < length (boundsVector pb) \<and> i < length (boundsVector pb ! k))"

definition linear_ok :: "problem \<Rightarrow> nat \<Rightarrow> bool" where
  "linear_ok pb k \<longleftrightarrow>
     \<not> isLinear (constraints pb ! k) \<or>
     (\<forall>i < outputSize (constraints pb ! k).
        k < length (boundsVector pb) \<and> i < length (boundsVector pb ! k) \<and>
        i < length (linear_b (constraints pb ! k)))"

definition combined_rows :: "problem \<Rightarrow> (dbl \<times> dbl) list" where
  "combined_rows pb =
     (NInf, PInf) # concat (map (nonlinear_rows pb) [0..<length (constraints pb)])
       @ concat (map (linear_rows pb) [0..<length (constraints pb)])"

definition nl_size :: "constraint \<Rightarrow> nat" where
  "nl_size c = (if isLinear c then 0 else outputSize c)"

definition lin_size :: "constraint \<Rightarrow> nat" where
  "lin_size c = (if isLinear c then outputSize c else 0)"

definition row_of :: "constraint list \<Rightarrow> nat \<Rightarrow> nat \<Rightarrow> nat" where
  "row_of cs k i =
     (if isLinear (cs ! k)
      then 1 + sum_list (map nl_size cs) + sum_list (map lin_size (take k cs)) + i
      else 1 + sum_list (map nl_size (take k cs)) + i)"

text \<open>What the body of the tolerance loop does to the pair of one row.\<close>

definition snap_zero :: "dbl \<Rightarrow> dbl" where
  "snap_zero d = (if dlt (dabs d) tol then Fin 0 else d)"

definition snap_pair :: "dbl \<times> dbl \<Rightarrow> dbl \<times> dbl" where
  "snap_pair p =
     (let lo1 = snap_zero (fst p); hi1 = snap_zero (snd p)
      in (if dlt (dabs (dsub lo1 hi1)) tol then hi1 else lo1, hi1))"

text \<open>
  Two variants of the mixed problem: one whose bounds are within the tolerance of zero and
  of each other, one whose bounds are inconsistent.
\<close>

definition problemS :: problem where
  "problemS =
     \<lparr>pb_function = \<lparr>obj_name = ''square'', obj_inputSize = 1, obj_outputSize = 1,
                      obj_eval = square_eval, obj_jacobian = Some square_jac\<rparr>,
      constraints =
        [Nonlinear ''g'' 1 sq_eval sq_jac,
         Linear ''l'' \<lparr>rows = 1, cols = 1, entries = [(0, 0, Fin 7)]\<rparr> [Fin 1]],
      boundsVector = [[(Fin 2, Fin (2 + 1 / 10000000))], [(Fin (1 + 1 / 10000000), Fin 1)]],
      argumentBounds = [(Fin (- 10), Fin 10)],
      startingPoint = None\<rparr>"

definition problemI :: problem where
  "problemI =
     \<lparr>pb_function = \<lparr>obj_name = ''square'', obj_inputSize = 1, obj_outputSize = 1,
                      obj_eval = square_eval, obj_jacobian = Some square_jac\<rparr>,
      constraints = [Nonlinear ''g'' 1 sq_eval sq_jac],
      boundsVector = [[(Fin 3, Fin 2)]],
      argumentBounds = [(Fin (- 10), Fin 10)],
      startingPoint = None\<rparr>"

text \<open>
  The values the loops of \<^verbatim>\<open>if (needg > 0)\<close> write, in the order they write them, and
  the Jacobian evaluations of constraints they make.
\<close>

definition jacobian_values :: "smatrix \<Rightarrow> dbl list" where
  "jacobian_values j = map (\<lambda>e. snd (snd e)) (entries j)"

definition needg_block :: "problem \<Rightarrow> dbl list \<Rightarrow> nat \<Rightarrow> dbl list" where
  "needg_block pb x k =
     (if isLinear (constraints pb ! k) then jacobian_values (jacobian (constraints pb ! k) x)
      else [])"

definition needg_event :: "problem \<Rightarrow> dbl list \<Rightarrow> nat \<Rightarrow> event list" where
  "needg_event pb x k = (if isLinear (constraints pb ! k) then [JacConstraint k x] else [])"

definition needg_values :: "problem \<Rightarrow> dbl list \<Rightarrow> dbl list" where
  "needg_values pb x =
     (case obj_jacobian (pb_function pb) of None \<Rightarrow> [] | Some j \<Rightarrow> jacobian_values (j x))
     @ concat (map (needg_block pb x) [0..<length (constraints pb)])"

text \<open>The values the nonlinear loop of \<^verbatim>\<open>if (needf > 0)\<close> writes for one constraint.\<close>

definition needf_block :: "problem \<Rightarrow> dbl list \<Rightarrow> nat \<Rightarrow> dbl list" where
  "needf_block pb x k =
     (if isLinear (constraints pb ! k) then [] else eval_of (constraints pb ! k) x)"

definition needf_event :: "problem \<Rightarrow> dbl list \<Rightarrow> nat \<Rightarrow> event list" where
  "needf_event pb x k = (if isLinear (constraints pb ! k) then [] else [EvalConstraint k x])"

definition cb_init2 :: cb_state where
  "cb_init2 = \<lparr>cb_f = [Fin 0, Fin 0], cb_g = [Fin 0, Fin 0],
               cb_solverState = \<lparr>state_x = []\<rparr>, cb_events = []\<rparr>"

text \<open>An external solver that reports a failure on Scenario A.\<close>

definition nag_failed :: nag_solver where
  "nag_failed a =
     \<lparr>out_x = [Fin 1], out_xstate = [0], out_xmul = [Fin 0],
      out_f = [Fin 4], out_fstate = [0], out_fmul = [Fin 0],
      out_ns = 0, out_ninf = 0, out_sinf = Fin 0,
      fail_code = 1, fail_message = ''NE_USER_STOP''\<rparr>"

text \<open>The \<^verbatim>\<open>Result\<close> that \<^verbatim>\<open>solve\<close> builds from the arrays of the external solver.\<close>

definition decoded :: "problem \<Rightarrow> nag_output \<Rightarrow> result_rec" where
  "decoded pb out =
     \<lparr>result_inputSize = obj_inputSize (pb_function pb),
      result_outputSize = obj_outputSize (pb_function pb),
      result_x = out_x out,
      result_value = [out_f out ! 0],
      result_constraints = tl (out_f out),
      result_lambda = tl (out_fmul out)\<rparr>"

section \<open>Properties\<close>

lemma fold_add_outputSize:
  "fold (\<lambda>c nf. nf + outputSize c) cs k = k + sum_list (map outputSize cs)"
  by (induction cs arbitrary: k) simp_all

lemma compute_nf_sum:
  "compute_nf pb = obj_outputSize (pb_function pb) + sum_list (map outputSize (constraints pb))"
  by (simp add: compute_nf_def fold_add_outputSize)

text \<open>Unfolding the model on a concrete problem.\<close>

lemmas ev = thenE_def assertE_def store_def fetch_def fetch2_def mstore_def msegment_def
  lookForX_def lookForX_value_def lookForX_constraint_def infinity_def
  square_eval_def square_jac_def sq_eval_def sq_jac_def nonZeros_def Let_def

lemmas ev2 = fill_iafun_javar_lena_nea_def initial_offset_def push_linear_def
  fill_igfun_jgvar_leng_neg_def push_nonlinear_def fill_xlow_xupp_def
  fill_flow_fupp_def assemble_flow_fupp_def snap_row_def tol_def
  fill_fnames_def fname_def xname_def digit_char_def resize_eigen_def resize_std_def
  compute_nf_def segment_def NE_NOERROR_def

lemma quiet_refl: "quiet st st"
  by (simp add: quiet_def)

lemma quiet_trans: "quiet a b \<Longrightarrow> quiet b c \<Longrightarrow> quiet a c"
  by (auto simp: quiet_def)

lemma thenE_Inr: "thenE m k = Inr r \<longleftrightarrow> (\<exists>v. m = Inr v \<and> k v = Inr r)"
  by (cases m) (simp_all add: thenE_def)

lemma assertE_Inr: "assertE b = Inr u \<longleftrightarrow> b"
  by (simp add: assertE_def)

lemma foldE_invariant:
  assumes "foldE body ixs s = Inr s'" and "P s"
    and "\<And>i t t'. i \<in> set ixs \<Longrightarrow> P t \<Longrightarrow> body i t = Inr t' \<Longrightarrow> P t'"
  shows "P s'"
  using assms
proof (induction ixs arbitrary: s)
  case Nil
  then show ?case by simp
next
  case (Cons i ixs)
  from Cons.prems(1) obtain t where t: "body i s = Inr t" and r: "foldE body ixs t = Inr s'"
    by (auto split: sum.splits)
  have "P t" using Cons.prems(2,3) t by (meson list.set_intros(1))
  then show ?case using Cons.IH[OF r] Cons.prems(3) by (meson list.set_intros(2))
qed

lemma foldE_quiet:
  assumes "foldE body ixs s = Inr s'"
    and "\<And>i t t'. body i t = Inr t' \<Longrightarrow> quiet (fst t) (fst t')"
  shows "quiet (fst s) (fst s')"
  using assms(1)
proof (induction ixs arbitrary: s)
  case Nil
  then show ?case by (simp add: quiet_refl)
next
  case (Cons i ixs)
  from Cons.prems obtain t where t: "body i s = Inr t" and r: "foldE body ixs t = Inr s'"
    by (auto split: sum.splits)
  show ?case using assms(2)[OF t] Cons.IH[OF r] by (rule quiet_trans)
qed

lemma needf_nonlinear_quiet:
  "needf_nonlinear pb x nf k s = Inr s' \<Longrightarrow> quiet (fst s) (fst s')"
  by (cases s; cases s') (auto simp: needf_nonlinear_def Let_def thenE_Inr quiet_def split: if_splits)

lemma needf_linear_quiet:
  "needf_linear pb k s = Inr s' \<Longrightarrow> quiet (fst s) (fst s')"
  by (cases s; cases s') (auto simp: needf_linear_def Let_def quiet_def split: if_splits)

lemma usrfun_needf_quiet:
  assumes "usrfun_needf pb x nf st = Inr st'"
  shows "quiet st st'"
proof -
  from assms obtain f' s1 s2 where
    l1: "foldE (needf_nonlinear pb x nf) [0..<length (constraints pb)]
           (st\<lparr>cb_f := f', cb_events := cb_events st @ [EvalObjective x]\<rparr>, 1) = Inr s1"
    and l2: "foldE (needf_linear pb) [0..<length (constraints pb)] s1 = Inr s2"
    and e: "fst s2 = st'"
    by (auto simp: usrfun_needf_def thenE_Inr assertE_Inr split: prod.splits)
  have q0: "quiet st (st\<lparr>cb_f := f', cb_events := cb_events st @ [EvalObjective x]\<rparr>)"
    by (simp add: quiet_def)
  have q1: "quiet (st\<lparr>cb_f := f', cb_events := cb_events st @ [EvalObjective x]\<rparr>) (fst s1)"
    using foldE_quiet[OF l1 needf_nonlinear_quiet] by simp
  have q2: "quiet (fst s1) (fst s2)"
    using foldE_quiet[OF l2 needf_linear_quiet] by simp
  show ?thesis using q0 q1 q2 e by (blast intro: quiet_trans)
qed

lemma write_values_quiet:
  assumes "write_values leng j s = Inr s'"
  shows "quiet (fst s) (fst s')"
  by (rule foldE_quiet[OF assms[unfolded write_values_def]])
     (auto simp: thenE_Inr quiet_def split: prod.splits)

lemma needg_constraint_quiet:
  "needg_constraint pb x leng k s = Inr s' \<Longrightarrow> quiet (fst s) (fst s')"
  by (cases s; cases s')
     (auto simp: needg_constraint_def Let_def quiet_refl quiet_def split: if_splits
           dest!: write_values_quiet)

lemma usrfun_needg_quiet:
  assumes "usrfun_needg pb x leng st = Inr st'"
  shows "quiet st st'"
proof -
  from assms obtain jac s1 s2 where
    l1: "write_values leng (jac x)
           (st\<lparr>cb_events := cb_events st @ [JacObjective x]\<rparr>, 0) = Inr s1"
    and l2: "foldE (needg_constraint pb x leng) [0..<length (constraints pb)] s1 = Inr s2"
    and e: "fst s2 = st'"
    by (auto simp: usrfun_needg_def thenE_Inr assertE_Inr split: prod.splits option.splits)
  have q0: "quiet st (st\<lparr>cb_events := cb_events st @ [JacObjective x]\<rparr>)"
    by (simp add: quiet_def)
  have q1: "quiet (st\<lparr>cb_events := cb_events st @ [JacObjective x]\<rparr>) (fst s1)"
    using write_values_quiet[OF l1] by simp
  have q2: "quiet (fst s1) (fst s2)"
    using foldE_quiet[OF l2 needg_constraint_quiet] by simp
  show ?thesis using q0 q1 q2 e by (blast intro: quiet_trans)
qed

lemma usrfun_scenarioA:
  "usrfun scenarioA (Some monitor_id) 0 1 [Fin 5] 1 1 1 1 cb_init =
     Inr \<lparr>cb_f = [Fin 4], cb_g = [Fin 4], cb_solverState = \<lparr>state_x = [Fin 5]\<rparr>,
          cb_events = [EvalObjective [Fin 5], JacObjective [Fin 5], MonitorCall [Fin 5]]\<rparr>"
  by (simp add: usrfun_def usrfun_needf_def usrfun_needg_def usrfun_monitor_def thenE_def
      assertE_def mstore_def write_values_def scenarioA_def cb_init_def monitor_id_def
      square_eval_def square_jac_def)

subsection \<open>The terminal signal\<close>

text \<open>
  C9. When the callback is invoked with the terminal signal (\<open>status \<ge> 2\<close>) it returns
  at once: the arrays \<open>f\<close> and \<open>g\<close>, the solver state and the events (evaluations and
  monitor calls) are all what they were.
\<close>

theorem usrfun_terminal:
  "2 \<le> status \<Longrightarrow> usrfun pb callback status n x needf nf needg leng st = Inr st"
  by (simp add: usrfun_def)

theorem usrfun_terminal_witness:
  "(2::int) \<le> 2 \<and> usrfun scenarioA (Some monitor_id) 2 1 [Fin 5] 1 1 1 1 cb_init = Inr cb_init"
  using usrfun_terminal[of 2 scenarioA "Some monitor_id" 1 "[Fin 5]" 1 1 1 1 cb_init] by simp

subsection \<open>The monitor\<close>

text \<open>
  C10. On a non-terminal invocation (\<open>status < 2\<close>) with a registered monitor: when neither
  values nor Jacobian are requested the callback returns normally, having set the solver
  state's \<open>x\<close> to the candidate point and called the monitor on it; and whenever the
  callback returns, the solver state is the monitor's result on the state whose \<open>x\<close> is
  the candidate point, the last event is that call, and exactly one monitor call was added.
\<close>

theorem usrfun_monitor_once:
  assumes "status < 2"
  shows "(needf \<le> 0 \<and> needg \<le> 0 \<longrightarrow>
            usrfun pb (Some cb) status n x needf nf needg leng st =
              Inr (st\<lparr>cb_solverState := cb pb ((cb_solverState st)\<lparr>state_x := take n x\<rparr>),
                      cb_events := cb_events st @ [MonitorCall (take n x)]\<rparr>))
       \<and> (\<forall>st'. usrfun pb (Some cb) status n x needf nf needg leng st = Inr st' \<longrightarrow>
            cb_solverState st' = cb pb ((cb_solverState st)\<lparr>state_x := take n x\<rparr>) \<and>
            last (cb_events st') = MonitorCall (take n x) \<and>
            monitorCalls st' = monitorCalls st + 1)"
proof (intro conjI allI impI)
  assume "needf \<le> 0 \<and> needg \<le> 0"
  then show "usrfun pb (Some cb) status n x needf nf needg leng st =
              Inr (st\<lparr>cb_solverState := cb pb ((cb_solverState st)\<lparr>state_x := take n x\<rparr>),
                      cb_events := cb_events st @ [MonitorCall (take n x)]\<rparr>)"
    using assms by (simp add: usrfun_def thenE_def usrfun_monitor_def)
next
  fix st'
  assume r: "usrfun pb (Some cb) status n x needf nf needg leng st = Inr st'"
  from r assms obtain st1 st2 where
    a: "(if needf > 0 then usrfun_needf pb (take n x) nf st else Inr st) = Inr st1"
    and b: "(if needg > 0 then usrfun_needg pb (take n x) leng st1 else Inr st1) = Inr st2"
    and c: "st' = usrfun_monitor pb (Some cb) (take n x) st2"
    by (auto simp: usrfun_def thenE_Inr)
  have "quiet st st1" using a by (auto simp: quiet_refl usrfun_needf_quiet split: if_splits)
  moreover have "quiet st1 st2" using b by (auto simp: quiet_refl usrfun_needg_quiet split: if_splits)
  ultimately have q: "quiet st st2" by (rule quiet_trans)
  show "cb_solverState st' = cb pb ((cb_solverState st)\<lparr>state_x := take n x\<rparr>)"
    using q c by (simp add: usrfun_monitor_def quiet_def)
  show "last (cb_events st') = MonitorCall (take n x)"
    using c by (simp add: usrfun_monitor_def)
  show "monitorCalls st' = monitorCalls st + 1"
    using q c by (auto simp: usrfun_monitor_def quiet_def monitorCalls_def filter_empty_conv)
qed


theorem usrfun_monitor_once_witness:
  "(0::int) < 2 \<and>
   usrfun scenarioA (Some monitor_id) 0 1 [Fin 5] 1 1 1 1 cb_init =
     Inr \<lparr>cb_f = [Fin 4], cb_g = [Fin 4], cb_solverState = \<lparr>state_x = [Fin 5]\<rparr>,
          cb_events = [EvalObjective [Fin 5], JacObjective [Fin 5], MonitorCall [Fin 5]]\<rparr> \<and>
   monitorCalls \<lparr>cb_f = [Fin 4], cb_g = [Fin 4], cb_solverState = \<lparr>state_x = [Fin 5]\<rparr>,
          cb_events = [EvalObjective [Fin 5], JacObjective [Fin 5], MonitorCall [Fin 5]]\<rparr> =
     monitorCalls cb_init + 1 \<and>
   usrfun scenarioA (Some monitor_id) 0 1 [Fin 5] 0 1 0 1 cb_init =
     Inr (cb_init\<lparr>cb_solverState := \<lparr>state_x = [Fin 5]\<rparr>, cb_events := [MonitorCall [Fin 5]]\<rparr>)"
  using usrfun_monitor_once[of 0 0 0 scenarioA monitor_id 1 "[Fin 5]" 1 1 cb_init]
    usrfun_monitor_once[of 0 1 1 scenarioA monitor_id 1 "[Fin 5]" 1 1 cb_init]
    usrfun_scenarioA
  by (simp add: monitor_id_def cb_init_def)

subsection \<open>The Jacobian values written by the callback\<close>

text \<open>
  C1. The claim is that, with the Jacobian flag set, the callback evaluates the Jacobian of
  the objective and of each Nonlinear constraint, of no Linear constraint, and writes the
  values in the order of the nonlinear pattern. The loop of the callback skips the
  constraints that are not linear instead. On the mixed problem the pattern has the entry
  of the objective and the entry of the nonlinear constraint (constraint 0); the callback
  at \<open>x = 5\<close> evaluates the objective and the linear constraint (constraint 1) and writes
  the coefficient 7 where the derivative 10 of the nonlinear constraint belongs.
\<close>

theorem usrfun_needg_linear_jacobian:
  "fill_igfun_jgvar_leng_neg problemM 1 = Inr ([1, 2], [1, 1], 2, 2)
   \<and> usrfun problemM None 0 1 [Fin 5] 0 3 1 2
        \<lparr>cb_f = [Fin 0, Fin 0, Fin 0], cb_g = [Fin 0, Fin 0],
         cb_solverState = \<lparr>state_x = []\<rparr>, cb_events = []\<rparr> =
      Inr \<lparr>cb_f = [Fin 0, Fin 0, Fin 0], cb_g = [Fin 4, Fin 7],
           cb_solverState = \<lparr>state_x = []\<rparr>,
           cb_events = [JacObjective [Fin 5], JacConstraint 1 [Fin 5]]\<rparr>
   \<and> entries (jacobian (constraints problemM ! 0) [Fin 5]) = [(0, 0, Fin 10)]"
  by (simp add: fill_igfun_jgvar_leng_neg_def push_nonlinear_def usrfun_def usrfun_needg_def
        needg_constraint_def write_values_def usrfun_monitor_def ev problemM_def)


subsection \<open>The representative point\<close>

text \<open>
  C2. The claim is that, without a starting point, the point at which a nonlinear
  constraint's Jacobian is evaluated is the midpoint of a finite bound interval, else the
  single finite bound, else zero. On the mixed problem the interval of constraint 0 is
  \<open>[2, 4]\<close> and the code gives 1, half the width, not the midpoint 3; for the interval
  \<open>(-\<infinity>, 4]\<close> it gives \<open>+\<infinity>\<close>, and for \<open>(-\<infinity>, +\<infinity>)\<close> it gives \<open>-\<infinity>\<close>.
\<close>

theorem lookForX_constraint_half_width:
  "lookForX_constraint problemM 1 0 = Inr [Fin 1]
   \<and> lookForX_value (NInf, Fin 4) = PInf
   \<and> lookForX_value (NInf, PInf) = NInf"
  by (simp add: ev problemM_def)

subsection \<open>Calling \<^verbatim>\<open>solve\<close> twice\<close>

text \<open>
  C5. The claim is that a second call of \<^verbatim>\<open>solve\<close> on the same adapter recomputes the
  derived state and leaves the adapter as after one call. On Scenario A the first call
  succeeds and leaves one name in \<^verbatim>\<open>fnames_\<close>; the second call pushes onto it, and the
  assertion that \<^verbatim>\<open>fnames_\<close> has \<^verbatim>\<open>nf_\<close> elements fails.
\<close>

theorem solve_twice_fails:
  "(case solve nag_found (NagSolverNlpSparse scenarioA) of
      Inl e \<Rightarrow> False
    | Inr a1 \<Rightarrow>
        result_m a1 =
          Result \<lparr>result_inputSize = 1, result_outputSize = 1, result_x = [Fin 3],
                  result_value = [Fin 0], result_constraints = [], result_lambda = []\<rparr>
        \<and> fnames_m a1 = [''cost, square, Ouput variable 0'']
        \<and> solve nag_found a1 = Inl AssertionFailed)"
  by (simp add: solve_def solve_prepare_def solve_finish_def NagSolverNlpSparse_def
        scenarioA_def ev ev2 nag_found_def)

lemma length_writes: "length (writes v off ds) = length v"
  by (induction ds arbitrary: v off) simp_all

lemma writes_append: "writes v off (ds @ es) = writes (writes v off ds) (off + length ds) es"
  by (induction ds arbitrary: v off) simp_all

lemma nth_writes:
  "j < length v \<Longrightarrow>
   writes v off ds ! j = (if off \<le> j \<and> j < off + length ds then ds ! (j - off) else v ! j)"
proof (induction ds arbitrary: v off)
  case Nil
  then show ?case by auto
next
  case (Cons d ds)
  show ?case
  proof (cases "j = off")
    case True
    with Cons show ?thesis by simp
  next
    case False
    with Cons show ?thesis by (auto simp: nth_Cons' Suc_diff_le)
  qed
qed

lemma writes_full:
  "off + length ds = length v \<Longrightarrow> writes v off ds = take off v @ ds"
  by (rule nth_equalityI) (auto simp: length_writes nth_writes nth_append)

lemma thenE_assoc: "thenE (thenE m f) g = thenE m (\<lambda>v. thenE (f v) g)"
  by (cases m) (simp_all add: thenE_def)

text \<open>rows loop\<close>

lemma put_rows:
  assumes "foldE (\<lambda>i s. thenE (row i) (\<lambda>bd. put_bounds (fst bd) (snd bd) s)) ixs (flow, fupp, off)
           = Inr (flow', fupp', off')"
  shows "\<exists>bds. map row ixs = map Inr bds
           \<and> flow' = writes flow off (map fst bds)
           \<and> fupp' = writes fupp off (map snd bds)
           \<and> off' = off + length ixs
           \<and> (ixs \<noteq> [] \<longrightarrow> off' \<le> length flow \<and> off' \<le> length fupp)"
  using assms
proof (induction ixs arbitrary: flow fupp off)
  case Nil
  then show ?case by simp
next
  case (Cons i ixs)
  from Cons.prems obtain bd where bd: "row i = Inr bd"
    and lt: "off < length flow" "off < length fupp"
    and rest: "foldE (\<lambda>i s. thenE (row i) (\<lambda>bd. put_bounds (fst bd) (snd bd) s)) ixs
                 (flow[off := fst bd], fupp[off := snd bd], off + 1) = Inr (flow', fupp', off')"
    by (auto simp: thenE_Inr put_bounds_def store_def split: sum.splits if_splits)
  from Cons.IH[OF rest] obtain bds where
    "map row ixs = map Inr bds"
    "flow' = writes (flow[off := fst bd]) (off + 1) (map fst bds)"
    "fupp' = writes (fupp[off := snd bd]) (off + 1) (map snd bds)"
    "off' = off + 1 + length ixs"
    "ixs \<noteq> [] \<longrightarrow> off' \<le> length flow \<and> off' \<le> length fupp"
    by auto
  with bd lt show ?case
    by (intro exI[of _ "bd # bds"]) auto
qed

lemma map_eq_Inr:
  assumes "map row ixs = map Inr bds"
    and "\<And>i bd. i \<in> set ixs \<Longrightarrow> row i = Inr bd \<Longrightarrow> bd = g i \<and> ok i"
  shows "bds = map g ixs \<and> (\<forall>i\<in>set ixs. ok i)"
proof -
  have len: "length bds = length ixs"
    using assms(1) by (metis length_map)
  have each: "row (ixs ! j) = Inr (bds ! j)" if "j < length ixs" for j
  proof -
    have "map row ixs ! j = map Inr bds ! j" using assms(1) by simp
    then show ?thesis using that len by simp
  qed
  have a: "bds ! j = g (ixs ! j) \<and> ok (ixs ! j)" if "j < length ixs" for j
    using assms(2)[OF nth_mem[OF that] each[OF that]] .
  have "bds = map g ixs"
    by (rule nth_equalityI) (use len a in simp_all)
  moreover have "\<forall>i\<in>set ixs. ok i"
    using a by (auto simp: in_set_conv_nth)
  ultimately show ?thesis by simp
qed

lemma nonlinear_bounds_step:
  assumes "nonlinear_bounds pb k (flow, fupp, off) = Inr (flow', fupp', off')"
  shows "flow' = writes flow off (map fst (nonlinear_rows pb k))
       \<and> fupp' = writes fupp off (map snd (nonlinear_rows pb k))
       \<and> off' = off + length (nonlinear_rows pb k)
       \<and> (nonlinear_rows pb k \<noteq> [] \<longrightarrow> off' \<le> length flow \<and> off' \<le> length fupp)
       \<and> nonlinear_ok pb k"
proof (cases "isLinear (constraints pb ! k)")
  case True
  with assms show ?thesis by (simp add: nonlinear_bounds_def nonlinear_rows_def nonlinear_ok_def)
next
  case False
  with assms have l: "foldE (\<lambda>i s. thenE (fetch2 (boundsVector pb) k i) (\<lambda>bd. put_bounds (fst bd) (snd bd) s))
             [0..<outputSize (constraints pb ! k)] (flow, fupp, off) = Inr (flow', fupp', off')"
    by (simp add: nonlinear_bounds_def)
  from put_rows[OF l] obtain bds where
    m: "map (fetch2 (boundsVector pb) k) [0..<outputSize (constraints pb ! k)] = map Inr bds"
    and r: "flow' = writes flow off (map fst bds)" "fupp' = writes fupp off (map snd bds)"
      "off' = off + length [0..<outputSize (constraints pb ! k)]"
      "[0..<outputSize (constraints pb ! k)] \<noteq> [] \<longrightarrow> off' \<le> length flow \<and> off' \<le> length fupp"
    by blast
  have "bds = map (\<lambda>i. boundsVector pb ! k ! i) [0..<outputSize (constraints pb ! k)]
        \<and> (\<forall>i\<in>set [0..<outputSize (constraints pb ! k)].
              k < length (boundsVector pb) \<and> i < length (boundsVector pb ! k))"
    by (rule map_eq_Inr[OF m]) (auto simp: fetch2_def split: if_splits)
  with r False show ?thesis by (simp add: nonlinear_rows_def nonlinear_ok_def)
qed

lemma linear_bounds_step:
  assumes "linear_bounds pb k (flow, fupp, off) = Inr (flow', fupp', off')"
  shows "flow' = writes flow off (map fst (linear_rows pb k))
       \<and> fupp' = writes fupp off (map snd (linear_rows pb k))
       \<and> off' = off + length (linear_rows pb k)
       \<and> (linear_rows pb k \<noteq> [] \<longrightarrow> off' \<le> length flow \<and> off' \<le> length fupp)
       \<and> linear_ok pb k"
proof (cases "isLinear (constraints pb ! k)")
  case False
  with assms show ?thesis by (simp add: linear_bounds_def linear_rows_def linear_ok_def)
next
  case True
  define row where "row = (\<lambda>i. thenE (fetch2 (boundsVector pb) k i) (\<lambda>bd.
       thenE (fetch (linear_b (constraints pb ! k)) i) (\<lambda>bi.
         Inr (dsub (fst bd) bi, dsub (snd bd) bi))))"
  have body: "(\<lambda>i s. thenE (fetch2 (boundsVector pb) k i) (\<lambda>bd.
             thenE (fetch (linear_b (constraints pb ! k)) i) (\<lambda>bi.
               put_bounds (dsub (fst bd) bi) (dsub (snd bd) bi) s)))
        = (\<lambda>i s. thenE (row i) (\<lambda>bd. put_bounds (fst bd) (snd bd) s))"
    by (intro ext) (simp add: row_def thenE_def split: sum.splits)
  from True assms have l: "foldE (\<lambda>i s. thenE (row i) (\<lambda>bd. put_bounds (fst bd) (snd bd) s))
             [0..<outputSize (constraints pb ! k)] (flow, fupp, off) = Inr (flow', fupp', off')"
    by (simp add: linear_bounds_def body)
  from put_rows[OF l] obtain bds where
    m: "map row [0..<outputSize (constraints pb ! k)] = map Inr bds"
    and r: "flow' = writes flow off (map fst bds)" "fupp' = writes fupp off (map snd bds)"
      "off' = off + length [0..<outputSize (constraints pb ! k)]"
      "[0..<outputSize (constraints pb ! k)] \<noteq> [] \<longrightarrow> off' \<le> length flow \<and> off' \<le> length fupp"
    by blast
  have "bds = map (\<lambda>i. (dsub (fst (boundsVector pb ! k ! i)) (linear_b (constraints pb ! k) ! i),
                      dsub (snd (boundsVector pb ! k ! i)) (linear_b (constraints pb ! k) ! i)))
             [0..<outputSize (constraints pb ! k)]
        \<and> (\<forall>i\<in>set [0..<outputSize (constraints pb ! k)].
              k < length (boundsVector pb) \<and> i < length (boundsVector pb ! k) \<and>
              i < length (linear_b (constraints pb ! k)))"
    by (rule map_eq_Inr[OF m])
       (auto simp: row_def fetch2_def fetch_def thenE_Inr split: if_splits)
  with r True show ?thesis by (simp add: linear_rows_def linear_ok_def)
qed

lemma bounds_loop:
  assumes "foldE body ks (flow, fupp, off) = Inr (flow', fupp', off')"
    and step: "\<And>k flow fupp off flow' fupp' off'.
        body k (flow, fupp, off) = Inr (flow', fupp', off') \<Longrightarrow>
        flow' = writes flow off (map fst (blk k))
       \<and> fupp' = writes fupp off (map snd (blk k))
       \<and> off' = off + length (blk k)
       \<and> (blk k \<noteq> [] \<longrightarrow> off' \<le> length flow \<and> off' \<le> length fupp)
       \<and> ok k"
  shows "flow' = writes flow off (map fst (concat (map blk ks)))
       \<and> fupp' = writes fupp off (map snd (concat (map blk ks)))
       \<and> off' = off + length (concat (map blk ks))
       \<and> (concat (map blk ks) \<noteq> [] \<longrightarrow> off' \<le> length flow \<and> off' \<le> length fupp)
       \<and> (\<forall>k\<in>set ks. ok k)"
  using assms(1)
proof (induction ks arbitrary: flow fupp off)
  case Nil
  then show ?case by simp
next
  case (Cons k ks)
  from Cons.prems obtain f1 u1 o1 where
    s1: "body k (flow, fupp, off) = Inr (f1, u1, o1)"
    and rest: "foldE body ks (f1, u1, o1) = Inr (flow', fupp', off')"
    by (auto split: sum.splits)
  note a = step[OF s1]
  note b = Cons.IH[OF rest]
  have len: "length f1 = length flow" "length u1 = length fupp"
    using a by (simp_all add: length_writes)
  show ?case
  proof (cases "concat (map blk ks) = []")
    case True
    then have "length (concat (map blk ks)) = 0" by simp
    with True a b len show ?thesis by (auto simp add: writes_append simp del: concat_eq_Nil_conv)
  next
    case False
    with a b len show ?thesis by (simp add: writes_append)
  qed
qed

lemma assemble_rows:
  assumes "assemble_flow_fupp pb nf = Inr (flow, fupp)"
  shows "flow = map fst (combined_rows pb) \<and> fupp = map snd (combined_rows pb)
       \<and> nf = length (combined_rows pb)
       \<and> (\<forall>k < length (constraints pb). nonlinear_ok pb k \<and> linear_ok pb k)"
proof -
  let ?ks = "[0..<length (constraints pb)]"
  let ?f0 = "(replicate nf (Fin 0))[0 := NInf]"
  let ?u0 = "(replicate nf (Fin 0))[0 := PInf]"
  let ?NL = "concat (map (nonlinear_rows pb) ?ks)"
  let ?LIN = "concat (map (linear_rows pb) ?ks)"
  from assms obtain f0 u0 s1 s2 where
    st: "store (replicate nf (Fin 0)) 0 (dneg infinity) = Inr f0"
        "store (replicate nf (Fin 0)) 0 infinity = Inr u0"
    and l1': "foldE (nonlinear_bounds pb) ?ks (f0, u0, 1) = Inr s1"
    and l2': "foldE (linear_bounds pb) ?ks s1 = Inr s2"
    and fin: "(case s2 of (flow', fupp', offset) \<Rightarrow>
                thenE (assertE (offset = nf)) (\<lambda>_. Inr (flow', fupp'))) = Inr (flow, fupp)"
    unfolding assemble_flow_fupp_def thenE_Inr by blast
  obtain f1 u1 o1 where s1: "s1 = (f1, u1, o1)" by (cases s1)
  obtain f2 u2 off where s2: "s2 = (f2, u2, off)" by (cases s2)
  from st have nf: "0 < nf" and f0: "f0 = ?f0" and u0: "u0 = ?u0"
    by (auto simp: store_def infinity_def split: if_splits)
  from fin s2 have off: "off = nf" and e: "f2 = flow" "u2 = fupp"
    by (auto simp: thenE_Inr assertE_Inr)
  have l1: "foldE (nonlinear_bounds pb) ?ks (?f0, ?u0, 1) = Inr (f1, u1, o1)"
    using l1' s1 f0 u0 by simp
  have l2: "foldE (linear_bounds pb) ?ks (f1, u1, o1) = Inr (flow, fupp, off)"
    using l2' s1 s2 e by simp
  note a = bounds_loop[OF l1, where blk = "nonlinear_rows pb" and ok = "nonlinear_ok pb",
      OF nonlinear_bounds_step]
  note b = bounds_loop[OF l2, where blk = "linear_rows pb" and ok = "linear_ok pb",
      OF linear_bounds_step]
  have o: "nf = 1 + length (?NL @ ?LIN)" using a b off by simp
  have "flow = writes ?f0 1 (map fst (?NL @ ?LIN))"
    using a b by (simp add: writes_append)
  also have "\<dots> = take 1 ?f0 @ map fst (?NL @ ?LIN)"
    by (rule writes_full) (use o in simp)
  also have "take 1 ?f0 = [NInf]" using nf by (cases nf) simp_all
  finally have F: "flow = map fst (combined_rows pb)" by (simp add: combined_rows_def)
  have "fupp = writes ?u0 1 (map snd (?NL @ ?LIN))"
    using a b by (simp add: writes_append)
  also have "\<dots> = take 1 ?u0 @ map snd (?NL @ ?LIN)"
    by (rule writes_full) (use o in simp)
  also have "take 1 ?u0 = [PInf]" using nf by (cases nf) simp_all
  finally have U: "fupp = map snd (combined_rows pb)" by (simp add: combined_rows_def)
  show ?thesis using F U o a b by (simp add: combined_rows_def)
qed

lemma concat_nth_block:
  assumes "k < length bs" and "i < length (bs ! k)"
  shows "concat bs ! (length (concat (take k bs)) + i) = bs ! k ! i"
proof -
  have "bs = take k bs @ (bs ! k) # drop (Suc k) bs"
    using assms(1) by (simp add: id_take_nth_drop)
  then have "concat bs = concat (take k bs) @ (bs ! k) @ concat (drop (Suc k) bs)"
    by (metis concat.simps(2) concat_append)
  then show ?thesis using assms(2) by (simp add: nth_append)
qed

lemma length_concat_blocks:
  assumes "k \<le> length cs" and "\<And>j. j < length cs \<Longrightarrow> length (blk j) = sz (cs ! j)"
  shows "length (concat (map blk [0..<k])) = sum_list (map sz (take k cs))"
  using assms(1)
proof (induction k)
  case 0
  then show ?case by simp
next
  case (Suc k)
  then have "take (Suc k) cs = take k cs @ [cs ! k]"
    by (simp add: take_Suc_conv_app_nth)
  with Suc assms(2)[of k] show ?case by simp
qed

lemma length_nonlinear_rows: "length (nonlinear_rows pb j) = nl_size (constraints pb ! j)"
  by (simp add: nonlinear_rows_def nl_size_def)

lemma length_linear_rows: "length (linear_rows pb j) = lin_size (constraints pb ! j)"
  by (simp add: linear_rows_def lin_size_def)

lemma block_nth:
  assumes "k < n" and "i < length (blk k)"
  shows "concat (map blk [0..<n]) ! (length (concat (map blk [0..<k])) + i) = blk k ! i"
proof -
  have "take k (map blk [0..<n]) = map blk [0..<k]"
    using assms(1) by (simp add: take_map)
  then show ?thesis
    using concat_nth_block[of k "map blk [0..<n]" i] assms by simp
qed

lemma block_pos:
  assumes "k < n" and "i < length (blk k)"
  shows "length (concat (map blk [0..<k])) + i < length (concat (map blk [0..<n]))"
proof -
  have "[0..<n] = [0..<k] @ k # [Suc k..<n]"
    using assms(1) by (metis less_imp_le_nat upt_add_eq_append upt_conv_Cons le0 le_add_diff_inverse plus_nat.add_0)
  then have "concat (map blk [0..<n])
      = concat (map blk [0..<k]) @ blk k @ concat (map blk [Suc k..<n])"
    by simp
  then show ?thesis using assms(2) by simp
qed

lemma combined_rows_nonlinear:
  assumes "k < length (constraints pb)" and "\<not> isLinear (constraints pb ! k)"
    and "i < outputSize (constraints pb ! k)"
  shows "row_of (constraints pb) k i < length (combined_rows pb)
       \<and> combined_rows pb ! row_of (constraints pb) k i = boundsVector pb ! k ! i"
proof -
  let ?n = "length (constraints pb)"
  let ?NL = "concat (map (nonlinear_rows pb) [0..<?n])"
  let ?p = "length (concat (map (nonlinear_rows pb) [0..<k]))"
  have i: "i < length (nonlinear_rows pb k)"
    using assms by (simp add: length_nonlinear_rows nl_size_def)
  have pos: "sum_list (map nl_size (take k (constraints pb))) = ?p"
    using assms(1)
    by (simp add: length_concat_blocks[where cs = "constraints pb"] length_nonlinear_rows)
  have lt: "?p + i < length ?NL"
    by (rule block_pos[where blk = "nonlinear_rows pb", OF assms(1) i])
  have "?NL ! (?p + i) = nonlinear_rows pb k ! i"
    by (rule block_nth[where blk = "nonlinear_rows pb", OF assms(1) i])
  also have "\<dots> = boundsVector pb ! k ! i"
    using assms by (simp add: nonlinear_rows_def)
  finally have v: "?NL ! (?p + i) = boundsVector pb ! k ! i" .
  have r: "row_of (constraints pb) k i = Suc (?p + i)"
    using assms(2) pos by (simp add: row_of_def)
  show ?thesis
    unfolding r using lt v by (simp add: combined_rows_def nth_append)
qed

lemma combined_rows_linear:
  assumes "k < length (constraints pb)" and "isLinear (constraints pb ! k)"
    and "i < outputSize (constraints pb ! k)"
  shows "row_of (constraints pb) k i < length (combined_rows pb)
       \<and> combined_rows pb ! row_of (constraints pb) k i =
           (dsub (fst (boundsVector pb ! k ! i)) (linear_b (constraints pb ! k) ! i),
            dsub (snd (boundsVector pb ! k ! i)) (linear_b (constraints pb ! k) ! i))"
proof -
  let ?n = "length (constraints pb)"
  let ?NL = "concat (map (nonlinear_rows pb) [0..<?n])"
  let ?LIN = "concat (map (linear_rows pb) [0..<?n])"
  let ?p = "length (concat (map (linear_rows pb) [0..<k]))"
  have i: "i < length (linear_rows pb k)"
    using assms by (simp add: length_linear_rows lin_size_def)
  have pos: "sum_list (map lin_size (take k (constraints pb))) = ?p"
    using assms(1)
    by (simp add: length_concat_blocks[where cs = "constraints pb"] length_linear_rows)
  have tot: "sum_list (map nl_size (constraints pb)) = length ?NL"
    using length_concat_blocks[of ?n "constraints pb" "nonlinear_rows pb" nl_size]
    by (simp add: length_nonlinear_rows)
  have lt: "?p + i < length ?LIN"
    by (rule block_pos[where blk = "linear_rows pb", OF assms(1) i])
  have "?LIN ! (?p + i) = linear_rows pb k ! i"
    by (rule block_nth[where blk = "linear_rows pb", OF assms(1) i])
  also have "\<dots> = (dsub (fst (boundsVector pb ! k ! i)) (linear_b (constraints pb ! k) ! i),
            dsub (snd (boundsVector pb ! k ! i)) (linear_b (constraints pb ! k) ! i))"
    using assms by (simp add: linear_rows_def)
  finally have v: "?LIN ! (?p + i) =
      (dsub (fst (boundsVector pb ! k ! i)) (linear_b (constraints pb ! k) ! i),
       dsub (snd (boundsVector pb ! k ! i)) (linear_b (constraints pb ! k) ! i))" .
  have r: "row_of (constraints pb) k i = Suc (length ?NL + (?p + i))"
    using assms(2) pos tot by (simp add: row_of_def)
  show ?thesis
    unfolding r using lt v by (simp add: combined_rows_def nth_append)
qed

subsection \<open>Bounds of the linear rows\<close>

text \<open>
  C4. When the assembly of the bounds (the part of \<^verbatim>\<open>fill_flow_fupp\<close> before the
  tolerance loop) succeeds, then for every Linear constraint \<open>k\<close> with offset \<open>b\<close> and every
  output \<open>i\<close> of it, the combined row of that output holds the declared bound pair of the
  output with \<open>b\<^sub>i\<close> subtracted from both bounds; the pair and \<open>b\<^sub>i\<close> exist.
\<close>

theorem linear_bound_shift:
  assumes "assemble_flow_fupp pb nf = Inr (flow, fupp)"
    and "k < length (constraints pb)"
    and "constraints pb ! k = Linear nm A b"
    and "i < rows A"
  shows "row_of (constraints pb) k i < nf \<and> length flow = nf \<and> length fupp = nf
       \<and> k < length (boundsVector pb) \<and> i < length (boundsVector pb ! k) \<and> i < length b
       \<and> flow ! row_of (constraints pb) k i = dsub (fst (boundsVector pb ! k ! i)) (b ! i)
       \<and> fupp ! row_of (constraints pb) k i = dsub (snd (boundsVector pb ! k ! i)) (b ! i)"
proof -
  note a = assemble_rows[OF assms(1)]
  have lin: "isLinear (constraints pb ! k)" and sz: "i < outputSize (constraints pb ! k)"
    and b: "linear_b (constraints pb ! k) = b"
    using assms(3,4) by simp_all
  note r = combined_rows_linear[OF assms(2) lin sz]
  have ok: "linear_ok pb k" using a assms(2) by simp
  then have rng: "k < length (boundsVector pb) \<and> i < length (boundsVector pb ! k) \<and> i < length b"
    using lin sz b by (simp add: linear_ok_def)
  have lt: "row_of (constraints pb) k i < nf" using a r by simp
  have "flow ! row_of (constraints pb) k i = fst (combined_rows pb ! row_of (constraints pb) k i)"
    using a r by simp
  moreover have "fupp ! row_of (constraints pb) k i = snd (combined_rows pb ! row_of (constraints pb) k i)"
    using a r by simp
  ultimately show ?thesis using r rng lt a b by simp
qed

lemma assemble_problemM:
  "assemble_flow_fupp problemM 3 = Inr ([NInf, Fin 2, Fin (- 1)], [PInf, Fin 4, Fin 9])"
  by (simp add: assemble_flow_fupp_def nonlinear_bounds_def linear_bounds_def put_bounds_def
      ev problemM_def numeral_3_eq_3)

theorem linear_bound_shift_witness:
  "assemble_flow_fupp problemM 3 = Inr ([NInf, Fin 2, Fin (- 1)], [PInf, Fin 4, Fin 9])
   \<and> constraints problemM ! 1 = Linear ''l'' \<lparr>rows = 1, cols = 1, entries = [(0, 0, Fin 7)]\<rparr> [Fin 1]
   \<and> boundsVector problemM ! 1 ! 0 = (Fin 0, Fin 10)
   \<and> row_of (constraints problemM) 1 0 = 2
   \<and> [NInf, Fin 2, Fin (- 1)] ! 2 = dsub (Fin 0) (Fin 1)
   \<and> [PInf, Fin 4, Fin 9] ! 2 = dsub (Fin 10) (Fin 1)"
proof -
  have c: "constraints problemM ! 1 = Linear ''l'' \<lparr>rows = 1, cols = 1, entries = [(0, 0, Fin 7)]\<rparr> [Fin 1]"
    by (simp add: problemM_def)
  have k: "1 < length (constraints problemM)" by (simp add: problemM_def)
  have i: "0 < rows \<lparr>rows = 1, cols = 1, entries = [(0::nat, 0::nat, Fin 7)]\<rparr>" by simp
  from linear_bound_shift[OF assemble_problemM k c i] assemble_problemM c
  show ?thesis by (simp add: problemM_def row_of_def nl_size_def lin_size_def)
qed

lemma snap_row_eq:
  assumes "row < length flow" and "row < length fupp"
  shows "snap_row row (flow, fupp) =
           (if dle (fst (snap_pair (flow ! row, fupp ! row))) (snd (snap_pair (flow ! row, fupp ! row)))
            then Inr (flow[row := fst (snap_pair (flow ! row, fupp ! row))],
                      fupp[row := snd (snap_pair (flow ! row, fupp ! row))])
            else Inl AssertionFailed)"
  using assms
  by (simp add: snap_row_def snap_pair_def snap_zero_def Let_def thenE_def assertE_def)

lemma snap_loop_Inr:
  assumes "foldE snap_row rs (flow, fupp) = Inr (flow', fupp')"
    and "distinct rs" and "\<forall>r\<in>set rs. r < length flow \<and> r < length fupp"
  shows "length flow' = length flow \<and> length fupp' = length fupp
       \<and> (\<forall>j\<in>set rs. (flow' ! j, fupp' ! j) = snap_pair (flow ! j, fupp ! j)
                      \<and> dle (flow' ! j) (fupp' ! j))
       \<and> (\<forall>j. j \<notin> set rs \<longrightarrow> flow' ! j = flow ! j \<and> fupp' ! j = fupp ! j)"
  using assms
proof (induction rs arbitrary: flow fupp)
  case Nil
  then show ?case by simp
next
  case (Cons r rs)
  let ?p = "snap_pair (flow ! r, fupp ! r)"
  let ?f1 = "flow[r := fst ?p]" and ?u1 = "fupp[r := snd ?p]"
  have rng: "r < length flow" "r < length fupp" using Cons.prems(3) by simp_all
  have step: "snap_row r (flow, fupp) =
           (if dle (fst ?p) (snd ?p) then Inr (?f1, ?u1) else Inl AssertionFailed)"
    by (rule snap_row_eq[OF rng])
  from Cons.prems(1) step have le: "dle (fst ?p) (snd ?p)"
    and rest: "foldE snap_row rs (?f1, ?u1) = Inr (flow', fupp')"
    by (simp_all split: if_splits)
  have d: "distinct rs" and nin: "r \<notin> set rs" using Cons.prems(2) by simp_all
  have rng': "\<forall>j\<in>set rs. j < length ?f1 \<and> j < length ?u1" using Cons.prems(3) by simp
  note ih = Cons.IH[OF rest d rng']
  have len: "length flow' = length flow \<and> length fupp' = length fupp" using ih by simp
  have at_r: "flow' ! r = fst ?p \<and> fupp' ! r = snd ?p"
    using ih nin rng by simp
  have others: "\<forall>j\<in>set rs. (flow' ! j, fupp' ! j) = snap_pair (flow ! j, fupp ! j)
                      \<and> dle (flow' ! j) (fupp' ! j)"
  proof
    fix j assume j: "j \<in> set rs"
    then have "j \<noteq> r" using nin by blast
    then have "?f1 ! j = flow ! j" "?u1 ! j = fupp ! j" by simp_all
    with ih j show "(flow' ! j, fupp' ! j) = snap_pair (flow ! j, fupp ! j)
                      \<and> dle (flow' ! j) (fupp' ! j)" by simp
  qed
  have out: "\<forall>j. j \<notin> set (r # rs) \<longrightarrow> flow' ! j = flow ! j \<and> fupp' ! j = fupp ! j"
  proof (intro allI impI)
    fix j assume j: "j \<notin> set (r # rs)"
    then have "j \<noteq> r" "j \<notin> set rs" by simp_all
    then show "flow' ! j = flow ! j \<and> fupp' ! j = fupp ! j" using ih by simp
  qed
  show ?case using len at_r le others out by simp
qed

lemma snap_loop_Inl:
  assumes "foldE snap_row rs (flow, fupp) = Inl e"
    and "distinct rs" and "\<forall>r\<in>set rs. r < length flow \<and> r < length fupp"
  shows "e = AssertionFailed
       \<and> (\<exists>j\<in>set rs. \<not> dle (fst (snap_pair (flow ! j, fupp ! j)))
                              (snd (snap_pair (flow ! j, fupp ! j))))"
  using assms
proof (induction rs arbitrary: flow fupp)
  case Nil
  then show ?case by simp
next
  case (Cons r rs)
  let ?p = "snap_pair (flow ! r, fupp ! r)"
  let ?f1 = "flow[r := fst ?p]" and ?u1 = "fupp[r := snd ?p]"
  have rng: "r < length flow" "r < length fupp" using Cons.prems(3) by simp_all
  have step: "snap_row r (flow, fupp) =
           (if dle (fst ?p) (snd ?p) then Inr (?f1, ?u1) else Inl AssertionFailed)"
    by (rule snap_row_eq[OF rng])
  show ?case
  proof (cases "dle (fst ?p) (snd ?p)")
    case False
    with Cons.prems(1) step show ?thesis by simp
  next
    case True
    with Cons.prems(1) step have rest: "foldE snap_row rs (?f1, ?u1) = Inl e" by simp
    have d: "distinct rs" and nin: "r \<notin> set rs" using Cons.prems(2) by simp_all
    have rng': "\<forall>j\<in>set rs. j < length ?f1 \<and> j < length ?u1" using Cons.prems(3) by simp
    from Cons.IH[OF rest d rng'] obtain j where e: "e = AssertionFailed" and j: "j \<in> set rs"
      and bad: "\<not> dle (fst (snap_pair (?f1 ! j, ?u1 ! j))) (snd (snap_pair (?f1 ! j, ?u1 ! j)))"
      by blast
    have "j \<noteq> r" using j nin by blast
    then have "?f1 ! j = flow ! j" "?u1 ! j = fupp ! j" by simp_all
    with bad have "\<not> dle (fst (snap_pair (flow ! j, fupp ! j))) (snd (snap_pair (flow ! j, fupp ! j)))"
      by simp
    with e j show ?thesis by auto
  qed
qed

lemma snap_pair_zero_lo:
  "dlt (dabs lo) tol \<Longrightarrow> fst (snap_pair (lo, hi)) = Fin 0"
  by (cases lo; cases hi) (auto simp: snap_pair_def snap_zero_def tol_def Let_def)

lemma snap_pair_zero_hi:
  "dlt (dabs hi) tol \<Longrightarrow> snd (snap_pair (lo, hi)) = Fin 0"
  by (simp add: snap_pair_def snap_zero_def Let_def)

lemma snap_pair_near:
  "dlt (dabs (dsub (snap_zero lo) (snap_zero hi))) tol
   \<Longrightarrow> fst (snap_pair (lo, hi)) = snd (snap_pair (lo, hi))"
  by (simp add: snap_pair_def Let_def)

lemma snap_pair_equal:
  "dlt (dabs (dsub (fst (snap_pair p)) (snd (snap_pair p)))) tol
   \<Longrightarrow> fst (snap_pair p) = snd (snap_pair p)"
  by (simp add: snap_pair_def Let_def split: if_splits)

subsection \<open>Consistency of the bounds\<close>

text \<open>
  C7. After the bounds are assembled, \<^verbatim>\<open>fill_flow_fupp\<close> goes through the combined rows.
  When it returns, in every row: a bound that was within the tolerance of zero is exactly
  zero; the pair is the assembled pair after the two snapping steps, so that when the two
  bounds, after the snapping to zero, differ by less than the tolerance they are equal, and
  no pair of the result is unequal and within the tolerance; and lower \<open>\<le>\<close> upper. When some
  row has lower \<open>\<le>\<close> upper false after snapping, the function fails its assertion; when
  every row has it, the function returns.
\<close>

theorem bounds_snapped:
  assumes "assemble_flow_fupp pb nf = Inr (flow0, fupp0)"
  shows "(\<forall>flow fupp. fill_flow_fupp pb nf = Inr (flow, fupp) \<longrightarrow>
            length flow = nf \<and> length fupp = nf \<and>
            (\<forall>r<nf.
               (dlt (dabs (flow0 ! r)) tol \<longrightarrow> flow ! r = Fin 0) \<and>
               (dlt (dabs (fupp0 ! r)) tol \<longrightarrow> fupp ! r = Fin 0) \<and>
               (flow ! r, fupp ! r) = snap_pair (flow0 ! r, fupp0 ! r) \<and>
               (dlt (dabs (dsub (snap_zero (flow0 ! r)) (snap_zero (fupp0 ! r)))) tol
                  \<longrightarrow> flow ! r = fupp ! r) \<and>
               (dlt (dabs (dsub (flow ! r) (fupp ! r))) tol \<longrightarrow> flow ! r = fupp ! r) \<and>
               dle (flow ! r) (fupp ! r)))
       \<and> ((\<exists>r<nf. \<not> dle (fst (snap_pair (flow0 ! r, fupp0 ! r)))
                          (snd (snap_pair (flow0 ! r, fupp0 ! r))))
            \<longrightarrow> fill_flow_fupp pb nf = Inl AssertionFailed)
       \<and> ((\<forall>r<nf. dle (fst (snap_pair (flow0 ! r, fupp0 ! r)))
                       (snd (snap_pair (flow0 ! r, fupp0 ! r))))
            \<longrightarrow> (\<exists>flow fupp. fill_flow_fupp pb nf = Inr (flow, fupp)))"
proof -
  have len0: "length flow0 = nf" "length fupp0 = nf"
    using assemble_rows[OF assms] by simp_all
  have fill: "fill_flow_fupp pb nf = foldE snap_row [0..<nf] (flow0, fupp0)"
    using assms by (simp add: fill_flow_fupp_def thenE_def)
  have d: "distinct [0..<nf]" by simp
  have rng: "\<forall>r\<in>set [0..<nf]. r < length flow0 \<and> r < length fupp0"
    using len0 by simp
  have A: "length flow = nf \<and> length fupp = nf \<and>
            (\<forall>r<nf.
               (dlt (dabs (flow0 ! r)) tol \<longrightarrow> flow ! r = Fin 0) \<and>
               (dlt (dabs (fupp0 ! r)) tol \<longrightarrow> fupp ! r = Fin 0) \<and>
               (flow ! r, fupp ! r) = snap_pair (flow0 ! r, fupp0 ! r) \<and>
               (dlt (dabs (dsub (snap_zero (flow0 ! r)) (snap_zero (fupp0 ! r)))) tol
                  \<longrightarrow> flow ! r = fupp ! r) \<and>
               (dlt (dabs (dsub (flow ! r) (fupp ! r))) tol \<longrightarrow> flow ! r = fupp ! r) \<and>
               dle (flow ! r) (fupp ! r))"
    if r: "fill_flow_fupp pb nf = Inr (flow, fupp)" for flow fupp
  proof -
    note l = snap_loop_Inr[OF r[unfolded fill] d rng]
    have each: "(dlt (dabs (flow0 ! j)) tol \<longrightarrow> flow ! j = Fin 0) \<and>
               (dlt (dabs (fupp0 ! j)) tol \<longrightarrow> fupp ! j = Fin 0) \<and>
               (flow ! j, fupp ! j) = snap_pair (flow0 ! j, fupp0 ! j) \<and>
               (dlt (dabs (dsub (snap_zero (flow0 ! j)) (snap_zero (fupp0 ! j)))) tol
                  \<longrightarrow> flow ! j = fupp ! j) \<and>
               (dlt (dabs (dsub (flow ! j) (fupp ! j))) tol \<longrightarrow> flow ! j = fupp ! j) \<and>
               dle (flow ! j) (fupp ! j)" if j: "j < nf" for j
    proof -
      have p: "(flow ! j, fupp ! j) = snap_pair (flow0 ! j, fupp0 ! j)"
        and le: "dle (flow ! j) (fupp ! j)"
        using l j by simp_all
      have f: "flow ! j = fst (snap_pair (flow0 ! j, fupp0 ! j))"
        and u: "fupp ! j = snd (snap_pair (flow0 ! j, fupp0 ! j))"
        using p by (metis fst_conv, metis snd_conv)
      show ?thesis
        using p le snap_pair_zero_lo[of "flow0 ! j" "fupp0 ! j"]
          snap_pair_zero_hi[of "fupp0 ! j" "flow0 ! j"]
          snap_pair_equal[of "(flow0 ! j, fupp0 ! j)"]
          snap_pair_near[of "flow0 ! j" "fupp0 ! j"]
        unfolding f u by simp
    qed
    show ?thesis using l len0 each by simp
  qed
  have B: "fill_flow_fupp pb nf = Inl AssertionFailed"
    if bad: "\<exists>r<nf. \<not> dle (fst (snap_pair (flow0 ! r, fupp0 ! r)))
                          (snd (snap_pair (flow0 ! r, fupp0 ! r)))"
  proof (cases "fill_flow_fupp pb nf")
    case (Inl e)
    with snap_loop_Inl[OF Inl[unfolded fill] d rng] show ?thesis by simp
  next
    case (Inr s)
    obtain flow fupp where s: "s = (flow, fupp)" by (cases s)
    from A[OF Inr[unfolded s]] bad show ?thesis by (metis fst_conv snd_conv)
  qed
  have C: "\<exists>flow fupp. fill_flow_fupp pb nf = Inr (flow, fupp)"
    if good: "\<forall>r<nf. dle (fst (snap_pair (flow0 ! r, fupp0 ! r)))
                       (snd (snap_pair (flow0 ! r, fupp0 ! r)))"
  proof (cases "fill_flow_fupp pb nf")
    case (Inl e)
    from snap_loop_Inl[OF Inl[unfolded fill] d rng] good show ?thesis by auto
  next
    case (Inr s)
    then show ?thesis by (cases s) simp
  qed
  show ?thesis using A B C by blast
qed

lemma assemble_problemS:
  "assemble_flow_fupp problemS 3 =
     Inr ([NInf, Fin 2, Fin (1 / 10000000)], [PInf, Fin (2 + 1 / 10000000), Fin 0])"
  by (simp add: assemble_flow_fupp_def nonlinear_bounds_def linear_bounds_def put_bounds_def
      ev problemS_def numeral_3_eq_3)

lemma fill_problemS:
  "fill_flow_fupp problemS 3 =
     Inr ([NInf, Fin (2 + 1 / 10000000), Fin 0], [PInf, Fin (2 + 1 / 10000000), Fin 0])"
  by (simp only: fill_flow_fupp_def assemble_problemS thenE_def sum.case)
     (simp add: snap_row_def tol_def thenE_def assertE_def numeral_3_eq_3 Let_def)

lemma assemble_problemI:
  "assemble_flow_fupp problemI 2 = Inr ([NInf, Fin 3], [PInf, Fin 2])"
  by (simp add: assemble_flow_fupp_def nonlinear_bounds_def linear_bounds_def put_bounds_def
      ev problemI_def numeral_2_eq_2)

theorem bounds_snapped_witness:
  "assemble_flow_fupp problemS 3 =
     Inr ([NInf, Fin 2, Fin (1 / 10000000)], [PInf, Fin (2 + 1 / 10000000), Fin 0])
   \<and> fill_flow_fupp problemS 3 =
     Inr ([NInf, Fin (2 + 1 / 10000000), Fin 0], [PInf, Fin (2 + 1 / 10000000), Fin 0])
   \<and> dlt (dabs (Fin (1 / 10000000))) tol
   \<and> dlt (dabs (dsub (Fin 2) (Fin (2 + 1 / 10000000)))) tol
   \<and> assemble_flow_fupp problemI 2 = Inr ([NInf, Fin 3], [PInf, Fin 2])
   \<and> \<not> dle (fst (snap_pair (Fin 3, Fin 2))) (snd (snap_pair (Fin 3, Fin 2)))
   \<and> fill_flow_fupp problemI 2 = Inl AssertionFailed"
proof -
  have bad: "\<not> dle (fst (snap_pair (Fin 3, Fin 2))) (snd (snap_pair (Fin 3, Fin 2)))"
    by (simp add: snap_pair_def snap_zero_def tol_def Let_def)
  then have ex: "\<exists>r<2. \<not> dle (fst (snap_pair ([NInf, Fin 3] ! r, [PInf, Fin 2] ! r)))
                          (snd (snap_pair ([NInf, Fin 3] ! r, [PInf, Fin 2] ! r)))"
    by (intro exI[of _ 1]) simp
  have "fill_flow_fupp problemI 2 = Inl AssertionFailed"
    using bounds_snapped[OF assemble_problemI] ex by blast
  moreover have "dlt (dabs (Fin (1 / 10000000))) tol"
    "dlt (dabs (dsub (Fin 2) (Fin (2 + 1 / 10000000)))) tol"
    by (simp_all add: tol_def)
  ultimately show ?thesis
    using bounds_snapped[OF assemble_problemS] assemble_problemS fill_problemS assemble_problemI bad
    by simp
qed

lemma write_loop_Inr:
  assumes "foldE (\<lambda>e s. case s of (st, offset) \<Rightarrow>
              thenE (mstore (cb_g st) leng offset (snd (snd e))) (\<lambda>g'.
                Inr (st\<lparr>cb_g := g'\<rparr>, offset + 1))) es (st, off) = Inr (st', off')"
  shows "cb_g st' = writes (cb_g st) off (map (\<lambda>e. snd (snd e)) es)
       \<and> cb_f st' = cb_f st \<and> cb_events st' = cb_events st
       \<and> cb_solverState st' = cb_solverState st
       \<and> off' = off + length es
       \<and> (es \<noteq> [] \<longrightarrow> off' \<le> leng \<and> off' \<le> length (cb_g st))"
  using assms
proof (induction es arbitrary: st off)
  case Nil
  then show ?case by simp
next
  case (Cons e es)
  let ?st1 = "st\<lparr>cb_g := (cb_g st)[off := snd (snd e)]\<rparr>"
  from Cons.prems have lt: "off < leng" "off < length (cb_g st)"
    by (auto simp: thenE_def mstore_def split: if_splits)
  with Cons.prems have rest: "foldE (\<lambda>e s. case s of (st, offset) \<Rightarrow>
              thenE (mstore (cb_g st) leng offset (snd (snd e))) (\<lambda>g'.
                Inr (st\<lparr>cb_g := g'\<rparr>, offset + 1))) es (?st1, off + 1) = Inr (st', off')"
    by (simp add: thenE_def mstore_def)
  from Cons.IH[OF rest] lt show ?case by auto
qed

lemma write_loop_Inl:
  assumes "foldE (\<lambda>e s. case s of (st, offset) \<Rightarrow>
              thenE (mstore (cb_g st) leng offset (snd (snd e))) (\<lambda>g'.
                Inr (st\<lparr>cb_g := g'\<rparr>, offset + 1))) es (st, off) = Inl err"
    and "leng \<le> length (cb_g st)"
  shows "err = AssertionFailed"
  using assms
proof (induction es arbitrary: st off)
  case Nil
  then show ?case by simp
next
  case (Cons e es)
  show ?case
  proof (cases "off < leng")
    case False
    with Cons.prems show ?thesis by (simp add: thenE_def mstore_def)
  next
    case True
    let ?st1 = "st\<lparr>cb_g := (cb_g st)[off := snd (snd e)]\<rparr>"
    from True Cons.prems have rest: "foldE (\<lambda>e s. case s of (st, offset) \<Rightarrow>
              thenE (mstore (cb_g st) leng offset (snd (snd e))) (\<lambda>g'.
                Inr (st\<lparr>cb_g := g'\<rparr>, offset + 1))) es (?st1, off + 1) = Inl err"
      by (simp add: thenE_def mstore_def)
    have "leng \<le> length (cb_g ?st1)" using Cons.prems(2) by simp
    from Cons.IH[OF rest this] show ?thesis .
  qed
qed

lemma write_values_Inr:
  assumes "write_values leng j (st, off) = Inr (st', off')"
  shows "cb_g st' = writes (cb_g st) off (jacobian_values j)
       \<and> cb_f st' = cb_f st \<and> cb_events st' = cb_events st
       \<and> cb_solverState st' = cb_solverState st
       \<and> off' = off + length (jacobian_values j)
       \<and> (jacobian_values j \<noteq> [] \<longrightarrow> off' \<le> leng \<and> off' \<le> length (cb_g st))"
  using write_loop_Inr[OF assms[unfolded write_values_def]]
  by (auto simp: jacobian_values_def)

lemma write_values_Inl:
  "write_values leng j (st, off) = Inl err \<Longrightarrow> leng \<le> length (cb_g st) \<Longrightarrow> err = AssertionFailed"
  unfolding write_values_def by (rule write_loop_Inl)

lemma needg_constraint_Inr:
  assumes "needg_constraint pb x leng k (st, off) = Inr (st', off')"
  shows "cb_g st' = writes (cb_g st) off (needg_block pb x k)
       \<and> cb_f st' = cb_f st \<and> cb_events st' = cb_events st @ needg_event pb x k
       \<and> cb_solverState st' = cb_solverState st
       \<and> off' = off + length (needg_block pb x k)
       \<and> (needg_block pb x k \<noteq> [] \<longrightarrow> off' \<le> leng \<and> off' \<le> length (cb_g st))"
proof (cases "isLinear (constraints pb ! k)")
  case False
  with assms show ?thesis
    by (simp add: needg_constraint_def needg_block_def needg_event_def)
next
  case True
  with assms have w: "write_values leng (jacobian (constraints pb ! k) x)
               (st\<lparr>cb_events := cb_events st @ [JacConstraint k x]\<rparr>, off) = Inr (st', off')"
    by (simp add: needg_constraint_def)
  from write_values_Inr[OF w] True show ?thesis
    by (auto simp: needg_block_def needg_event_def)
qed

lemma needg_constraint_Inl:
  assumes "needg_constraint pb x leng k (st, off) = Inl err" and "leng \<le> length (cb_g st)"
  shows "err = AssertionFailed"
proof (cases "isLinear (constraints pb ! k)")
  case False
  with assms show ?thesis by (simp add: needg_constraint_def)
next
  case True
  with assms have w: "write_values leng (jacobian (constraints pb ! k) x)
               (st\<lparr>cb_events := cb_events st @ [JacConstraint k x]\<rparr>, off) = Inl err"
    by (simp add: needg_constraint_def)
  show ?thesis by (rule write_values_Inl[OF w]) (use assms(2) in simp)
qed

lemma needg_loop_Inr:
  assumes "foldE (needg_constraint pb x leng) ks (st, off) = Inr (st', off')"
  shows "cb_g st' = writes (cb_g st) off (concat (map (needg_block pb x) ks))
       \<and> cb_f st' = cb_f st
       \<and> cb_events st' = cb_events st @ concat (map (needg_event pb x) ks)
       \<and> cb_solverState st' = cb_solverState st
       \<and> off' = off + length (concat (map (needg_block pb x) ks))
       \<and> (concat (map (needg_block pb x) ks) \<noteq> [] \<longrightarrow> off' \<le> leng \<and> off' \<le> length (cb_g st))"
  using assms
proof (induction ks arbitrary: st off)
  case Nil
  then show ?case by simp
next
  case (Cons k ks)
  from Cons.prems obtain s1 where
    s1: "needg_constraint pb x leng k (st, off) = Inr s1"
    and rest': "foldE (needg_constraint pb x leng) ks s1 = Inr (st', off')"
    by (auto split: sum.splits)
  obtain st1 o1 where e: "s1 = (st1, o1)" by (cases s1)
  note a = needg_constraint_Inr[OF s1[unfolded e]]
  note b = Cons.IH[OF rest'[unfolded e]]
  have len: "length (cb_g st1) = length (cb_g st)" using a by (simp add: length_writes)
  show ?case
  proof (cases "concat (map (needg_block pb x) ks) = []")
    case True
    then have "length (concat (map (needg_block pb x) ks)) = 0" by simp
    with True a b len show ?thesis
      by (auto simp add: writes_append simp del: concat_eq_Nil_conv)
  next
    case False
    with a b len show ?thesis by (simp add: writes_append)
  qed
qed

lemma needg_loop_Inl:
  assumes "foldE (needg_constraint pb x leng) ks (st, off) = Inl err"
    and "leng \<le> length (cb_g st)"
  shows "err = AssertionFailed"
  using assms
proof (induction ks arbitrary: st off)
  case Nil
  then show ?case by simp
next
  case (Cons k ks)
  show ?case
  proof (cases "needg_constraint pb x leng k (st, off)")
    case (Inl e)
    with Cons.prems(1) have "e = err" by simp
    with needg_constraint_Inl[OF Inl Cons.prems(2)] show ?thesis by simp
  next
    case (Inr s1)
    obtain st1 o1 where e: "s1 = (st1, o1)" by (cases s1)
    from Inr Cons.prems(1) have rest: "foldE (needg_constraint pb x leng) ks (st1, o1) = Inl err"
      by (simp add: e)
    have "length (cb_g st1) = length (cb_g st)"
      using needg_constraint_Inr[OF Inr[unfolded e]] by (simp add: length_writes)
    with Cons.prems(2) have "leng \<le> length (cb_g st1)" by simp
    from Cons.IH[OF rest this] show ?thesis .
  qed
qed

lemma usrfun_needg_Inr:
  assumes "usrfun_needg pb x leng st = Inr st'"
  shows "obj_jacobian (pb_function pb) \<noteq> None
       \<and> length (needg_values pb x) = leng
       \<and> cb_g st' = writes (cb_g st) 0 (needg_values pb x)
       \<and> cb_f st' = cb_f st
       \<and> cb_events st' = cb_events st @ JacObjective x #
            concat (map (needg_event pb x) [0..<length (constraints pb)])
       \<and> cb_solverState st' = cb_solverState st
       \<and> (leng \<noteq> 0 \<longrightarrow> leng \<le> length (cb_g st))"
proof -
  from assms obtain j where j: "obj_jacobian (pb_function pb) = Some j"
    by (auto simp: usrfun_needg_def split: option.splits)
  let ?ks = "[0..<length (constraints pb)]"
  let ?st0 = "st\<lparr>cb_events := cb_events st @ [JacObjective x]\<rparr>"
  from assms j obtain st1 o1 o2 where
    w: "write_values leng (j x) (?st0, 0) = Inr (st1, o1)"
    and l: "foldE (needg_constraint pb x leng) ?ks (st1, o1) = Inr (st', o2)"
    and o2: "o2 = leng"
    unfolding usrfun_needg_def by (simp add: thenE_Inr assertE_Inr) blast
  define st2 where "st2 = st'"
  have st2: "st2 = st'" by (simp add: st2_def)
  note a = write_values_Inr[OF w]
  note b = needg_loop_Inr[OF l]
  have len: "length (cb_g st1) = length (cb_g st)" using a by (simp add: length_writes)
  have v: "needg_values pb x = jacobian_values (j x) @ concat (map (needg_block pb x) ?ks)"
    using j by (simp add: needg_values_def)
  have n: "length (needg_values pb x) = leng" using a b o2 v by simp
  have g: "cb_g st' = writes (cb_g st) 0 (needg_values pb x)"
    using a b st2 v by (simp add: writes_append)
  have bound: "leng \<noteq> 0 \<longrightarrow> leng \<le> length (cb_g st)"
  proof
    assume "leng \<noteq> 0"
    show "leng \<le> length (cb_g st)"
    proof (cases "concat (map (needg_block pb x) ?ks) = []")
      case False
      with b o2 len show ?thesis by simp
    next
      case True
      then have "length (concat (map (needg_block pb x) ?ks)) = 0" by simp
      with n v \<open>leng \<noteq> 0\<close> have "jacobian_values (j x) \<noteq> []" and "o1 = leng"
        using a b o2 by auto
      with a show ?thesis by simp
    qed
  qed
  show ?thesis using j n g a b st2 bound by simp
qed

lemma usrfun_needg_Inl:
  assumes "obj_jacobian (pb_function pb) = Some j" and "leng \<le> length (cb_g st)"
    and "length (needg_values pb x) \<noteq> leng"
  shows "usrfun_needg pb x leng st = Inl AssertionFailed"
proof -
  let ?ks = "[0..<length (constraints pb)]"
  let ?st0 = "st\<lparr>cb_events := cb_events st @ [JacObjective x]\<rparr>"
  have g0: "leng \<le> length (cb_g ?st0)" using assms(2) by simp
  show ?thesis
  proof (cases "write_values leng (j x) (?st0, 0)")
    case (Inl e)
    with write_values_Inl[OF Inl g0] assms(1) show ?thesis
      by (simp add: usrfun_needg_def thenE_def)
  next
    case (Inr s1)
    obtain st1 o1 where e1: "s1 = (st1, o1)" by (cases s1)
    have "length (cb_g st1) = length (cb_g st)"
      using write_values_Inr[OF Inr[unfolded e1]] by (simp add: length_writes)
    with assms(2) have g1: "leng \<le> length (cb_g st1)" by simp
    show ?thesis
    proof (cases "foldE (needg_constraint pb x leng) ?ks (st1, o1)")
      case (Inl e)
      with needg_loop_Inl[OF Inl g1] Inr e1 assms(1) show ?thesis
        by (simp add: usrfun_needg_def thenE_def)
    next
      case r2: (Inr s2)
      obtain st2 o2 where e2: "s2 = (st2, o2)" by (cases s2)
      have "o2 \<noteq> leng"
      proof
        assume "o2 = leng"
        with Inr r2 e1 e2 assms(1) have "usrfun_needg pb x leng st = Inr st2"
          by (simp add: usrfun_needg_def thenE_def assertE_def)
        from usrfun_needg_Inr[OF this] assms(3) show False by simp
      qed
      with Inr r2 e1 e2 assms(1) show ?thesis
        by (simp add: usrfun_needg_def thenE_def assertE_def)
    qed
  qed
qed

lemma take_writes: "length vs \<le> length v \<Longrightarrow> take (length vs) (writes v 0 vs) = vs"
  by (rule nth_equalityI) (simp_all add: length_writes nth_writes)

lemma writes_take_drop:
  "off + length vs \<le> length v \<Longrightarrow> writes v off vs = take off v @ vs @ drop (off + length vs) v"
  by (rule nth_equalityI) (auto simp: length_writes nth_writes nth_append)

lemma needf_nonlinear_Inr:
  assumes "needf_nonlinear pb x nf k (st, off) = Inr (st', off')"
  shows "cb_f st' = writes (cb_f st) off (needf_block pb x k)
       \<and> cb_g st' = cb_g st
       \<and> cb_events st' = cb_events st @ needf_event pb x k
       \<and> cb_solverState st' = cb_solverState st
       \<and> off' = off + length (needf_block pb x k)
       \<and> length (needf_block pb x k) = nl_size (constraints pb ! k)
       \<and> (needf_block pb x k \<noteq> [] \<longrightarrow> off' \<le> nf \<and> off' \<le> length (cb_f st))"
proof (cases "isLinear (constraints pb ! k)")
  case True
  with assms show ?thesis
    by (simp add: needf_nonlinear_def needf_block_def needf_event_def nl_size_def)
next
  case False
  let ?c = "constraints pb ! k"
  from False assms obtain f' where
    m: "msegment (cb_f st) nf off (outputSize ?c) (eval_of ?c x) = Inr f'"
    and st': "st' = st\<lparr>cb_f := f', cb_events := cb_events st @ [EvalConstraint k x]\<rparr>"
    and off': "off' = off + outputSize ?c"
    by (auto simp: needf_nonlinear_def thenE_Inr Let_def)
  from m have c: "off + outputSize ?c \<le> nf" "length (eval_of ?c x) = outputSize ?c"
    "off + outputSize ?c \<le> length (cb_f st)"
    and f': "f' = take off (cb_f st) @ eval_of ?c x @ drop (off + outputSize ?c) (cb_f st)"
    by (auto simp: msegment_def split: if_splits)
  have "f' = writes (cb_f st) off (eval_of ?c x)"
    using c f' by (simp add: writes_take_drop)
  with False st' off' c show ?thesis
    by (simp add: needf_block_def needf_event_def nl_size_def)
qed

lemma needf_nonlinear_loop:
  assumes "foldE (needf_nonlinear pb x nf) ks (st, off) = Inr (st', off')"
  shows "cb_f st' = writes (cb_f st) off (concat (map (needf_block pb x) ks))
       \<and> cb_g st' = cb_g st
       \<and> cb_events st' = cb_events st @ concat (map (needf_event pb x) ks)
       \<and> cb_solverState st' = cb_solverState st
       \<and> off' = off + length (concat (map (needf_block pb x) ks))
       \<and> (\<forall>k\<in>set ks. length (needf_block pb x k) = nl_size (constraints pb ! k))
       \<and> (concat (map (needf_block pb x) ks) \<noteq> [] \<longrightarrow> off' \<le> nf \<and> off' \<le> length (cb_f st))"
  using assms
proof (induction ks arbitrary: st off)
  case Nil
  then show ?case by simp
next
  case (Cons k ks)
  from Cons.prems obtain s1 where
    s1: "needf_nonlinear pb x nf k (st, off) = Inr s1"
    and rest': "foldE (needf_nonlinear pb x nf) ks s1 = Inr (st', off')"
    by (auto split: sum.splits)
  obtain st1 o1 where e: "s1 = (st1, o1)" by (cases s1)
  note a = needf_nonlinear_Inr[OF s1[unfolded e]]
  note b = Cons.IH[OF rest'[unfolded e]]
  have len: "length (cb_f st1) = length (cb_f st)" using a by (simp add: length_writes)
  show ?case
  proof (cases "concat (map (needf_block pb x) ks) = []")
    case True
    then have "length (concat (map (needf_block pb x) ks)) = 0" by simp
    with True a b len show ?thesis
      by (auto simp add: writes_append simp del: concat_eq_Nil_conv)
  next
    case False
    with a b len show ?thesis by (simp add: writes_append)
  qed
qed

lemma needf_linear_loop:
  assumes "foldE (needf_linear pb) ks (st, off) = Inr (st', off')"
  shows "st' = st \<and> off' = off + sum_list (map (\<lambda>k. lin_size (constraints pb ! k)) ks)"
  using assms
proof (induction ks arbitrary: off)
  case Nil
  then show ?case by simp
next
  case (Cons k ks)
  have "needf_linear pb k (st, off) = Inr (st, off + lin_size (constraints pb ! k))"
    by (simp add: needf_linear_def lin_size_def)
  with Cons.prems have "foldE (needf_linear pb) ks (st, off + lin_size (constraints pb ! k))
      = Inr (st', off')" by simp
  from Cons.IH[OF this] show ?case by simp
qed

lemma sum_list_index:
  "sum_list (map (\<lambda>k. sz (cs ! k)) [0..<length cs]) = sum_list (map sz cs)"
proof -
  have "map (\<lambda>k. sz (cs ! k)) [0..<length cs] = map sz (map ((!) cs) [0..<length cs])"
    by simp
  then show ?thesis by (simp only: map_nth)
qed

lemma usrfun_needf_Inr:
  assumes "usrfun_needf pb x nf st = Inr st'"
  shows "\<exists>v. obj_eval (pb_function pb) x = [v]
       \<and> 0 < nf \<and> 0 < length (cb_f st)
       \<and> cb_f st' = writes ((cb_f st)[0 := v]) 1
                      (concat (map (needf_block pb x) [0..<length (constraints pb)]))
       \<and> cb_g st' = cb_g st
       \<and> cb_events st' = cb_events st @ EvalObjective x #
            concat (map (needf_event pb x) [0..<length (constraints pb)])
       \<and> cb_solverState st' = cb_solverState st
       \<and> nf = 1 + sum_list (map nl_size (constraints pb)) + sum_list (map lin_size (constraints pb))
       \<and> length (concat (map (needf_block pb x) [0..<length (constraints pb)]))
           = sum_list (map nl_size (constraints pb))
       \<and> (\<forall>k<length (constraints pb). length (needf_block pb x k) = nl_size (constraints pb ! k))
       \<and> (sum_list (map nl_size (constraints pb)) \<noteq> 0 \<longrightarrow>
            1 + sum_list (map nl_size (constraints pb)) \<le> length (cb_f st))"
proof -
  let ?ks = "[0..<length (constraints pb)]"
  let ?V = "concat (map (needf_block pb x) ?ks)"
  from assms obtain f' st1 o1 o2 where
    m: "(case obj_eval (pb_function pb) x of [v] \<Rightarrow> mstore (cb_f st) nf 0 v
          | _ \<Rightarrow> Inl AssertionFailed) = Inr f'"
    and l1: "foldE (needf_nonlinear pb x nf) ?ks
              (st\<lparr>cb_f := f', cb_events := cb_events st @ [EvalObjective x]\<rparr>, 1) = Inr (st1, o1)"
    and l2: "foldE (needf_linear pb) ?ks (st1, o1) = Inr (st', o2)"
    and o2: "o2 = nf"
    unfolding usrfun_needf_def by (simp add: thenE_Inr assertE_Inr) blast
  from m obtain v where v: "obj_eval (pb_function pb) x = [v]"
    and s: "mstore (cb_f st) nf 0 v = Inr f'"
    by (auto split: list.splits)
  from s have nf: "0 < nf" "0 < length (cb_f st)" and f': "f' = (cb_f st)[0 := v]"
    by (auto simp: mstore_def split: if_splits)
  note a = needf_nonlinear_loop[OF l1]
  note b = needf_linear_loop[OF l2]
  have lenV: "length ?V = sum_list (map nl_size (constraints pb))"
  proof -
    have "length ?V = sum_list (map (\<lambda>k. length (needf_block pb x k)) ?ks)"
      by (simp add: length_concat comp_def)
    also have "\<dots> = sum_list (map (\<lambda>k. nl_size (constraints pb ! k)) ?ks)"
      using a by (intro arg_cong[where f = sum_list] map_cong) auto
    also have "\<dots> = sum_list (map nl_size (constraints pb))" by (rule sum_list_index)
    finally show ?thesis .
  qed
  have total: "nf = 1 + sum_list (map nl_size (constraints pb)) + sum_list (map lin_size (constraints pb))"
    using a b o2 lenV by (simp add: sum_list_index)
  have room: "sum_list (map nl_size (constraints pb)) \<noteq> 0 \<longrightarrow>
            1 + sum_list (map nl_size (constraints pb)) \<le> length (cb_f st)"
  proof
    assume "sum_list (map nl_size (constraints pb)) \<noteq> 0"
    with lenV have "length ?V \<noteq> 0" by simp
    then have "?V \<noteq> []" by (metis list.size(3))
    with a lenV f' show "1 + sum_list (map nl_size (constraints pb)) \<le> length (cb_f st)"
      by simp
  qed
  have each: "\<forall>k<length (constraints pb). length (needf_block pb x k) = nl_size (constraints pb ! k)"
    using a by simp
  show ?thesis
    using v nf a b f' total lenV room each by (intro exI[of _ v]) simp
qed

lemma usrfun_monitor_arrays:
  "cb_g (usrfun_monitor pb callback x st) = cb_g st \<and> cb_f (usrfun_monitor pb callback x st) = cb_f st"
  by (simp add: usrfun_monitor_def split: option.splits)

subsection \<open>The number of Jacobian values written\<close>

text \<open>
  C6. On a non-terminal invocation with the Jacobian flag set: when the callback returns,
  the values it wrote are exactly \<open>leng\<close> many and fill the first \<open>leng\<close> places of \<open>g\<close>;
  and when the number of values its loops produce differs from \<open>leng\<close> (the objective being
  differentiable and \<open>g\<close> having room for \<open>leng\<close> values), the Jacobian part fails an
  assertion, and so does the callback when no values are requested.
\<close>

theorem jacobian_count_enforced:
  assumes "status < 2" and "0 < needg"
  shows "(\<forall>st'. usrfun pb callback status n x needf nf needg leng st = Inr st' \<longrightarrow>
            length (needg_values pb (take n x)) = leng
            \<and> take leng (cb_g st') = needg_values pb (take n x))
       \<and> (\<forall>st1. obj_jacobian (pb_function pb) \<noteq> None \<and> leng \<le> length (cb_g st1)
                \<and> length (needg_values pb (take n x)) \<noteq> leng
            \<longrightarrow> usrfun_needg pb (take n x) leng st1 = Inl AssertionFailed)
       \<and> (needf \<le> 0 \<and> obj_jacobian (pb_function pb) \<noteq> None \<and> leng \<le> length (cb_g st)
                \<and> length (needg_values pb (take n x)) \<noteq> leng
            \<longrightarrow> usrfun pb callback status n x needf nf needg leng st = Inl AssertionFailed)"
proof (intro conjI allI impI)
  fix st'
  assume r: "usrfun pb callback status n x needf nf needg leng st = Inr st'"
  from r assms obtain st1 st2 where
    b: "usrfun_needg pb (take n x) leng st1 = Inr st2"
    and c: "st' = usrfun_monitor pb callback (take n x) st2"
    by (auto simp: usrfun_def thenE_Inr)
  note g = usrfun_needg_Inr[OF b]
  have g': "cb_g st' = writes (cb_g st1) 0 (needg_values pb (take n x))"
    using g c by (simp add: usrfun_monitor_arrays)
  show "length (needg_values pb (take n x)) = leng" using g by simp
  show "take leng (cb_g st') = needg_values pb (take n x)"
  proof (cases "leng = 0")
    case True
    with g show ?thesis by simp
  next
    case False
    with g have "length (needg_values pb (take n x)) \<le> length (cb_g st1)" by simp
    from take_writes[OF this] g g' show ?thesis by simp
  qed
next
  fix st1 :: cb_state
  assume a: "obj_jacobian (pb_function pb) \<noteq> None \<and> leng \<le> length (cb_g st1)
                \<and> length (needg_values pb (take n x)) \<noteq> leng"
  then obtain j where "obj_jacobian (pb_function pb) = Some j" by auto
  from usrfun_needg_Inl[OF this] a
  show "usrfun_needg pb (take n x) leng st1 = Inl AssertionFailed" by simp
next
  assume a: "needf \<le> 0 \<and> obj_jacobian (pb_function pb) \<noteq> None \<and> leng \<le> length (cb_g st)
                \<and> length (needg_values pb (take n x)) \<noteq> leng"
  then obtain j where "obj_jacobian (pb_function pb) = Some j" by auto
  from usrfun_needg_Inl[OF this] a
  have "usrfun_needg pb (take n x) leng st = Inl AssertionFailed" by simp
  with a assms show "usrfun pb callback status n x needf nf needg leng st = Inl AssertionFailed"
    by (simp add: usrfun_def thenE_def)
qed

theorem jacobian_count_enforced_witness:
  "(0::int) < 2 \<and> (0::int) < 1
   \<and> usrfun scenarioA (Some monitor_id) 0 1 [Fin 5] 1 1 1 1 cb_init =
       Inr \<lparr>cb_f = [Fin 4], cb_g = [Fin 4], cb_solverState = \<lparr>state_x = [Fin 5]\<rparr>,
            cb_events = [EvalObjective [Fin 5], JacObjective [Fin 5], MonitorCall [Fin 5]]\<rparr>
   \<and> needg_values scenarioA [Fin 5] = [Fin 4]
   \<and> fill_igfun_jgvar_leng_neg problemI 1 = Inr ([1, 2], [1, 1], 2, 2)
   \<and> needg_values problemI [Fin 5] = [Fin 4]
   \<and> usrfun problemI None 0 1 [Fin 5] 0 2 1 2 cb_init2 = Inl AssertionFailed"
proof -
  have v: "needg_values scenarioA [Fin 5] = [Fin 4]"
    by (simp add: needg_values_def jacobian_values_def scenarioA_def square_jac_def)
  have w: "needg_values problemI [Fin 5] = [Fin 4]"
    by (simp add: needg_values_def needg_block_def jacobian_values_def problemI_def square_jac_def)
  have p: "fill_igfun_jgvar_leng_neg problemI 1 = Inr ([1, 2], [1, 1], 2, 2)"
    by (simp add: fill_igfun_jgvar_leng_neg_def push_nonlinear_def ev problemI_def)
  have "usrfun problemI None 0 1 [Fin 5] 0 2 1 2 cb_init2 = Inl AssertionFailed"
    using jacobian_count_enforced[of 0 1 problemI None 1 "[Fin 5]" 0 2 2 cb_init2] w
    by (simp add: problemI_def cb_init2_def)
  then show ?thesis
    using jacobian_count_enforced[of 0 1 scenarioA "Some monitor_id" 1 "[Fin 5]" 1 1 1 cb_init]
      usrfun_scenarioA v w p
    by simp
qed

lemma size_split: "sum_list (map nl_size cs) + sum_list (map lin_size cs) = sum_list (map outputSize cs)"
  by (induction cs) (simp_all add: nl_size_def lin_size_def)

lemma length_combined_rows:
  "length (combined_rows pb) = 1 + sum_list (map outputSize (constraints pb))"
proof -
  let ?n = "length (constraints pb)"
  have "length (concat (map (nonlinear_rows pb) [0..<?n])) = sum_list (map nl_size (constraints pb))"
    using length_concat_blocks[of ?n "constraints pb" "nonlinear_rows pb" nl_size]
    by (simp add: length_nonlinear_rows)
  moreover have "length (concat (map (linear_rows pb) [0..<?n])) = sum_list (map lin_size (constraints pb))"
    using length_concat_blocks[of ?n "constraints pb" "linear_rows pb" lin_size]
    by (simp add: length_linear_rows)
  ultimately show ?thesis
    using size_split[of "constraints pb"] by (simp add: combined_rows_def)
qed

lemma fill_flow_fupp_Inr:
  assumes "fill_flow_fupp pb nf = Inr r"
  shows "nf = 1 + sum_list (map outputSize (constraints pb))"
proof -
  from assms obtain s where "assemble_flow_fupp pb nf = Inr s"
    by (auto simp: fill_flow_fupp_def thenE_Inr)
  then have "assemble_flow_fupp pb nf = Inr (fst s, snd s)" by simp
  from assemble_rows[OF this] show ?thesis by (simp add: length_combined_rows)
qed

lemma solve_prepare_Inr:
  assumes "solve_prepare a = Inr a1"
  shows "problem_m a1 = problem_m a \<and> nf_m a1 = compute_nf (problem_m a)
       \<and> (\<exists>r. fill_flow_fupp (problem_m a) (compute_nf (problem_m a)) = Inr r)"
  using assms
  unfolding solve_prepare_def Let_def
  by (auto simp: thenE_Inr split: prod.splits)

subsection \<open>The result of \<^verbatim>\<open>solve\<close>\<close>

text \<open>
  C8. When the part of \<^verbatim>\<open>solve\<close> before the external solver succeeds and the solver
  leaves \<open>nf\<close> values in \<^verbatim>\<open>f\<close> and in \<^verbatim>\<open>fmul\<close>, \<^verbatim>\<open>solve\<close> returns normally. On a
  status other than \<^verbatim>\<open>NE_NOERROR\<close> the stored result is a \<^verbatim>\<open>SolverError\<close> with the
  solver's message and, as last state, the decoded arrays; on \<^verbatim>\<open>NE_NOERROR\<close> it is the
  \<^verbatim>\<open>Result\<close> with \<open>x\<close>, the value \<open>f\<^sub>0\<close>, the constraint values \<open>f\<^sub>1 \<dots>\<close> and the
  multipliers \<open>fmul\<^sub>1 \<dots>\<close>.
\<close>

theorem solve_result:
  assumes "solve_prepare a = Inr a1"
    and "length (out_f (nag a1)) = nf_m a1" and "length (out_fmul (nag a1)) = nf_m a1"
  shows "\<exists>a2. solve nag a = Inr a2
       \<and> length (result_constraints (decoded (problem_m a) (nag a1))) = nf_m a1 - 1
       \<and> length (result_lambda (decoded (problem_m a) (nag a1))) = nf_m a1 - 1
       \<and> (fail_code (nag a1) = NE_NOERROR \<longrightarrow>
             result_m a2 = Result (decoded (problem_m a) (nag a1)))
       \<and> (fail_code (nag a1) \<noteq> NE_NOERROR \<longrightarrow>
             result_m a2 = SolverError (fail_message (nag a1))
                             (Some (decoded (problem_m a) (nag a1))))"
proof -
  let ?pb = "problem_m a" and ?out = "nag a1"
  note p = solve_prepare_Inr[OF assms(1)]
  then obtain r where r: "fill_flow_fupp ?pb (compute_nf ?pb) = Inr r" by blast
  have nf: "compute_nf ?pb = 1 + sum_list (map outputSize (constraints ?pb))"
    by (rule fill_flow_fupp_Inr[OF r])
  then have one: "obj_outputSize (pb_function ?pb) = 1"
    by (simp add: compute_nf_sum)
  have pos: "0 < nf_m a1" using p nf by simp
  have f0: "fetch (out_f ?out) 0 = Inr (out_f ?out ! 0)"
    using assms(2) pos by (simp add: fetch_def)
  have val: "store (replicate (obj_outputSize (pb_function ?pb)) (Fin 0)) 0 (out_f ?out ! 0)
      = Inr [out_f ?out ! 0]"
    using one by (simp add: store_def)
  have tl_eq: "take (nf_m a1 - 1) (drop 1 v) = tl v" if "length v = nf_m a1" for v :: "dbl list"
    using that by (simp add: drop_Suc)
  have cs: "segment (out_f ?out) 1 (nf_m a1 - 1) = Inr (tl (out_f ?out))"
    using assms(2) pos tl_eq[OF assms(2)] by (simp add: segment_def)
  have lam: "segment (out_fmul ?out) 1 (nf_m a1 - 1) = Inr (tl (out_fmul ?out))"
    using assms(3) pos tl_eq[OF assms(3)] by (simp add: segment_def)
  have fin: "solve_finish a1 ?out =
      (if fail_code ?out = NE_NOERROR
       then Inr (a1\<lparr>x_m := out_x ?out, xstate_m := out_xstate ?out, xmul_m := out_xmul ?out,
                 f_m := out_f ?out, fstate_m := out_fstate ?out, fmul_m := out_fmul ?out,
                 ns_m := out_ns ?out, ninf_m := out_ninf ?out, sinf_m := out_sinf ?out,
                 result_m := Result (decoded ?pb ?out)\<rparr>)
       else Inr (a1\<lparr>x_m := out_x ?out, xstate_m := out_xstate ?out, xmul_m := out_xmul ?out,
                 f_m := out_f ?out, fstate_m := out_fstate ?out, fmul_m := out_fmul ?out,
                 ns_m := out_ns ?out, ninf_m := out_ninf ?out, sinf_m := out_sinf ?out,
                 result_m := SolverError (fail_message ?out) (Some (decoded ?pb ?out))\<rparr>))"
    using p f0 val cs lam
    by (simp add: solve_finish_def Let_def thenE_def decoded_def)
  have s: "solve nag a = solve_finish a1 ?out"
    using assms(1) by (simp add: solve_def thenE_def)
  have len: "length (result_constraints (decoded ?pb ?out)) = nf_m a1 - 1"
    "length (result_lambda (decoded ?pb ?out)) = nf_m a1 - 1"
    using assms(2,3) by (simp_all add: decoded_def)
  show ?thesis
    unfolding s fin using len by (cases "fail_code ?out = NE_NOERROR") simp_all
qed

lemma prepare_scenarioA:
  "\<exists>a1. solve_prepare (NagSolverNlpSparse scenarioA) = Inr a1 \<and> nf_m a1 = 1"
  by (simp add: solve_prepare_def NagSolverNlpSparse_def scenarioA_def ev ev2)

theorem solve_result_witness:
  "(\<exists>a1. solve_prepare (NagSolverNlpSparse scenarioA) = Inr a1
       \<and> length (out_f (nag_failed a1)) = nf_m a1 \<and> length (out_fmul (nag_failed a1)) = nf_m a1
       \<and> fail_code (nag_failed a1) \<noteq> NE_NOERROR
       \<and> length (out_f (nag_found a1)) = nf_m a1 \<and> length (out_fmul (nag_found a1)) = nf_m a1
       \<and> fail_code (nag_found a1) = NE_NOERROR)
   \<and> (\<exists>a2. solve nag_failed (NagSolverNlpSparse scenarioA) = Inr a2
       \<and> result_m a2 = SolverError ''NE_USER_STOP''
            (Some \<lparr>result_inputSize = 1, result_outputSize = 1, result_x = [Fin 1],
                   result_value = [Fin 4], result_constraints = [], result_lambda = []\<rparr>))
   \<and> (\<exists>a2. solve nag_found (NagSolverNlpSparse scenarioA) = Inr a2
       \<and> result_m a2 = Result
            \<lparr>result_inputSize = 1, result_outputSize = 1, result_x = [Fin 3],
             result_value = [Fin 0], result_constraints = [], result_lambda = []\<rparr>)"
proof -
  from prepare_scenarioA obtain a1 where
    p: "solve_prepare (NagSolverNlpSparse scenarioA) = Inr a1" and nf: "nf_m a1 = 1"
    by blast
  have pb: "problem_m (NagSolverNlpSparse scenarioA) = scenarioA"
    by (simp add: NagSolverNlpSparse_def)
  have l1: "length (out_f (nag_failed a1)) = nf_m a1" "length (out_fmul (nag_failed a1)) = nf_m a1"
    and c1: "fail_code (nag_failed a1) \<noteq> NE_NOERROR"
    using nf by (simp_all add: nag_failed_def NE_NOERROR_def)
  have l2: "length (out_f (nag_found a1)) = nf_m a1" "length (out_fmul (nag_found a1)) = nf_m a1"
    and c2: "fail_code (nag_found a1) = NE_NOERROR"
    using nf by (simp_all add: nag_found_def)
  have d1: "decoded scenarioA (nag_failed a1) =
      \<lparr>result_inputSize = 1, result_outputSize = 1, result_x = [Fin 1],
       result_value = [Fin 4], result_constraints = [], result_lambda = []\<rparr>"
    by (simp add: decoded_def nag_failed_def scenarioA_def)
  have d2: "decoded scenarioA (nag_found a1) =
      \<lparr>result_inputSize = 1, result_outputSize = 1, result_x = [Fin 3],
       result_value = [Fin 0], result_constraints = [], result_lambda = []\<rparr>"
    by (simp add: decoded_def nag_found_def scenarioA_def)
  have m: "fail_message (nag_failed a1) = ''NE_USER_STOP''"
    by (simp add: nag_failed_def)
  from solve_result[where nag = nag_failed, OF p l1] c1 have r1:
    "\<exists>a2. solve nag_failed (NagSolverNlpSparse scenarioA) = Inr a2
       \<and> result_m a2 = SolverError ''NE_USER_STOP''
            (Some \<lparr>result_inputSize = 1, result_outputSize = 1, result_x = [Fin 1],
                   result_value = [Fin 4], result_constraints = [], result_lambda = []\<rparr>)"
    unfolding pb d1 m by blast
  from solve_result[where nag = nag_found, OF p l2] c2 have r2:
    "\<exists>a2. solve nag_found (NagSolverNlpSparse scenarioA) = Inr a2
       \<and> result_m a2 = Result
            \<lparr>result_inputSize = 1, result_outputSize = 1, result_x = [Fin 3],
             result_value = [Fin 0], result_constraints = [], result_lambda = []\<rparr>"
    unfolding pb d2 by blast
  show ?thesis using p l1 c1 l2 c2 r1 r2 by blast
qed

end
